theory Spec2Isabelle
  imports Main "HOL-Library.Multiset" "HOL-Library.Sublist" "HOL-Library.Finite_Map"
begin

section \<open>Data model\<close>

text \<open>
  The pipeline of \<^verbatim>\<open>main.py\<close> passes pandas DataFrames from stage to stage. A DataFrame
  is modelled as the list of its rows, in row order; the index is reset after every
  stage of the source and carries no information. A row as the source adapters build it
  has the five columns \<^verbatim>\<open>title, url, publish_time, description, source\<close>; the scoring
  step adds the columns \<^verbatim>\<open>importance_score\<close> and \<^verbatim>\<open>category\<close>; the archive table adds
  \<^verbatim>\<open>insert_timestamp\<close>. Strings are byte strings (UTF-8).
\<close>

record article =
  url :: string
  title :: string
  source :: string
  publish_time :: string
  description :: string

record scored = article +
  importance_score :: int
  category :: string

record archive_entry = article +
  insert_timestamp :: int

text \<open>The sentinel category of the source (the Chinese word for "unknown", two
  characters), as its six UTF-8 bytes.\<close>

definition unknown :: string where
  "unknown = [CHR 0xE6, CHR 0x9C, CHR 0xAA, CHR 0xE7, CHR 0x9F, CHR 0xA5]"

datatype py_error = KeyError | IntegrityError | OverflowError

definition with_score :: "article \<Rightarrow> int \<Rightarrow> string \<Rightarrow> scored" where
  "with_score a s c =
     \<lparr>url = url a, title = title a, source = source a, publish_time = publish_time a,
      description = description a, importance_score = s, category = c\<rparr>"

definition stamp :: "int \<Rightarrow> article \<Rightarrow> archive_entry" where
  "stamp t a =
     \<lparr>url = url a, title = title a, source = source a, publish_time = publish_time a,
      description = description a, insert_timestamp = t\<rparr>"

subsection \<open>pandas \<^verbatim>\<open>drop_duplicates(subset=..., keep='first')\<close>\<close>

text \<open>Rows are visited in order; a row is kept when its key has not been seen.\<close>

fun drop_dups_seen :: "('a \<Rightarrow> 'k) \<Rightarrow> 'k list \<Rightarrow> 'a list \<Rightarrow> 'a list" where
  "drop_dups_seen key seen [] = []"
| "drop_dups_seen key seen (x # xs) =
     (if key x \<in> set seen then drop_dups_seen key seen xs
      else x # drop_dups_seen key (key x # seen) xs)"

definition drop_duplicates :: "('a \<Rightarrow> 'k) \<Rightarrow> 'a list \<Rightarrow> 'a list" where
  "drop_duplicates key df = drop_dups_seen key [] df"

section \<open>Archive store (\<^verbatim>\<open>database.py\<close>)\<close>

text \<open>
  \<^verbatim>\<open>DatabaseManager\<close> holds a connection and one table whose primary key is \<^verbatim>\<open>url\<close>.
  The state is the connection flag and the rows of the table. The constructor raises
  when the connection cannot be made, so every manager that \<^verbatim>\<open>main\<close> uses is connected;
  the methods still test the flag, as in the source.
\<close>

record database =
  conn :: bool
  table :: "archive_entry list"

definition get_existing_urls :: "database \<Rightarrow> string set" where
  "get_existing_urls db = (if \<not> conn db then {} else set (map url (table db)))"

text \<open>
  \<^verbatim>\<open>df.to_sql(table, conn, if_exists='append', index=False)\<close> inserts the rows one after
  the other in one transaction. The table's primary key rejects a row whose url is
  already there (also one inserted earlier by the same call): the insert raises
  \<^verbatim>\<open>IntegrityError\<close>, the transaction is rolled back and the exception reaches the caller.
  The source records this in its comment on the call: inserting a url that exists makes
  \<^verbatim>\<open>to_sql\<close> fail, which is why the incremental check is made first.
\<close>

fun insert_rows :: "archive_entry list \<Rightarrow> archive_entry list \<Rightarrow> py_error + archive_entry list" where
  "insert_rows tbl [] = Inr tbl"
| "insert_rows tbl (r # rs) =
     (if url r \<in> set (map url tbl) then Inl IntegrityError
      else insert_rows (tbl @ [r]) rs)"

definition to_sql :: "archive_entry list \<Rightarrow> archive_entry list \<Rightarrow> py_error + archive_entry list" where
  "to_sql tbl df = insert_rows tbl df"

text \<open>\<^verbatim>\<open>write_new_articles\<close>: the exception of \<^verbatim>\<open>to_sql\<close> is caught and logged; the
  table is then as before the call.\<close>

definition write_new_articles :: "database \<Rightarrow> int \<Rightarrow> article list \<Rightarrow> database" where
  "write_new_articles db now df =
     (if df = [] \<or> \<not> conn db then db
      else case to_sql (table db) (map (stamp now) df) of
             Inl e \<Rightarrow> db
           | Inr tbl \<Rightarrow> db\<lparr>table := tbl\<rparr>)"

definition clean_old_articles :: "database \<Rightarrow> int \<Rightarrow> int \<Rightarrow> database" where
  "clean_old_articles db now days_to_keep =
     (if \<not> (conn db \<and> days_to_keep > 0) then db
      else let cutoff_timestamp = now - days_to_keep * 86400
           in db\<lparr>table := filter (\<lambda>r. \<not> insert_timestamp r < cutoff_timestamp) (table db)\<rparr>)"

section \<open>Scoring (\<^verbatim>\<open>ai_processing.py\<close>)\<close>

text \<open>
  The scoring service is outside the repository. It is a parameter: given the unique
  titles it answers \<open>None\<close> when anything inside the \<^verbatim>\<open>try\<close> block raises (no API key,
  the request fails, the text is not JSON, an item lacks a key), and otherwise the list
  of items of the parsed response. A score is an integer, as the prompt asks. An empty
  frame is returned as it is, before the service is called.
\<close>

record score_item =
  item_title :: string
  item_score :: int
  item_category :: string

text \<open>The dict comprehension that builds \<^verbatim>\<open>result_map\<close>: a later item replaces an
  earlier one with the same title.\<close>

definition result_map :: "score_item list \<Rightarrow> (string \<rightharpoonup> int \<times> string)" where
  "result_map results_list =
     fold (\<lambda>item m. m(item_title item \<mapsto> (item_score item, item_category item)))
       results_list Map.empty"

definition ai_rank_and_classify_articles ::
  "(string list \<Rightarrow> score_item list option) \<Rightarrow> article list \<Rightarrow> scored list" where
  "ai_rank_and_classify_articles service df =
     (if df = [] then []
      else case service (map title (drop_duplicates title df)) of
             None \<Rightarrow> map (\<lambda>a. with_score a 0 unknown) df
           | Some results_list \<Rightarrow>
               map (\<lambda>a. case result_map results_list (title a) of
                           None \<Rightarrow> with_score a 0 unknown
                         | Some (s, c) \<Rightarrow> with_score a s c) df)"

section \<open>Selection (\<^verbatim>\<open>main.py\<close>)\<close>

subsection \<open>Frequency bonus\<close>

text \<open>\<^verbatim>\<open>groupby('title')['title'].transform('count')\<close> gives every row the number of
  rows of the frame that have its title; \<^verbatim>\<open>(title_counts - 1).clip(upper=2)\<close> is the
  bonus, added to the score column row by row.\<close>

definition title_counts :: "'a article_scheme list \<Rightarrow> int list" where
  "title_counts df = map (\<lambda>a. int (length (filter (\<lambda>b. title b = title a) df))) df"

definition frequency_bonus :: "'a article_scheme list \<Rightarrow> int list" where
  "frequency_bonus df = map (\<lambda>c. min (c - 1) 2) (title_counts df)"

definition add_frequency_bonus :: "scored list \<Rightarrow> scored list" where
  "add_frequency_bonus df =
     map (\<lambda>(a, b). a\<lparr>importance_score := importance_score a + b\<rparr>) (zip df (frequency_bonus df))"

subsection \<open>Force-keep rules\<close>

text \<open>
  A rule is a dict of the configuration file: \<^verbatim>\<open>rule.get('type')\<close>, and the keys
  \<^verbatim>\<open>'values'\<close> and \<^verbatim>\<open>'conditions'\<close>, each present or not. \<^verbatim>\<open>Series.str.contains(pat,
  case=False, na=False)\<close> is a regular-expression search of pandas; it is the parameter
  \<open>contains pat s\<close>, and the patterns are taken to be ones it accepts.
\<close>

record rule =
  rule_type :: "string option"
  rule_values :: "string list option"
  rule_conditions :: "(string \<times> string) list option"

fun join :: "string \<Rightarrow> string list \<Rightarrow> string" where
  "join sep [] = []"
| "join sep [x] = x"
| "join sep (x # y # ys) = x @ sep @ join sep (y # ys)"

definition mask_or :: "bool list \<Rightarrow> bool list \<Rightarrow> bool list" where
  "mask_or m s = map (\<lambda>(x, y). x \<or> y) (zip m s)"

definition mask_and :: "bool list \<Rightarrow> bool list \<Rightarrow> bool list" where
  "mask_and m s = map (\<lambda>(x, y). x \<and> y) (zip m s)"

fun composite_mask ::
  "(string \<Rightarrow> string \<Rightarrow> bool) \<Rightarrow> scored list \<Rightarrow> bool list \<Rightarrow> (string \<times> string) list \<Rightarrow> bool list" where
  "composite_mask contains df m [] = m"
| "composite_mask contains df m ((key, v) # conds) =
     composite_mask contains df
       (if key = ''source'' then mask_and m (map (\<lambda>a. source a = v) df)
        else if key = ''category'' then mask_and m (map (\<lambda>a. category a = v) df)
        else if key = ''keyword'' then mask_and m (map (\<lambda>a. contains v (title a)) df)
        else m)
       conds"

definition apply_rule ::
  "(string \<Rightarrow> string \<Rightarrow> bool) \<Rightarrow> scored list \<Rightarrow> bool list \<Rightarrow> rule \<Rightarrow> bool list" where
  "apply_rule contains df force_keep_mask r =
     (if rule_type r = Some ''keyword'' \<and> rule_values r \<noteq> None then
        mask_or force_keep_mask
          (map (\<lambda>a. contains (join ''|'' (the (rule_values r))) (title a)) df)
      else if rule_type r = Some ''source'' \<and> rule_values r \<noteq> None then
        mask_or force_keep_mask (map (\<lambda>a. source a \<in> set (the (rule_values r))) df)
      else if rule_type r = Some ''category'' \<and> rule_values r \<noteq> None then
        mask_or force_keep_mask (map (\<lambda>a. category a \<in> set (the (rule_values r))) df)
      else if rule_type r = Some ''composite'' \<and> rule_conditions r \<noteq> None then
        mask_or force_keep_mask
          (composite_mask contains df (replicate (length df) True) (the (rule_conditions r)))
      else force_keep_mask)"

definition force_keep_mask ::
  "(string \<Rightarrow> string \<Rightarrow> bool) \<Rightarrow> scored list \<Rightarrow> rule list \<Rightarrow> bool list" where
  "force_keep_mask contains df rules =
     foldl (apply_rule contains df) (replicate (length df) False) rules"

text \<open>\<^verbatim>\<open>df[mask]\<close> and \<^verbatim>\<open>df[~mask]\<close>.\<close>

definition select_rows :: "'a list \<Rightarrow> bool list \<Rightarrow> 'a list" where
  "select_rows df m = map fst (filter snd (zip df m))"

definition apply_force_keep_rules ::
  "(string \<Rightarrow> string \<Rightarrow> bool) \<Rightarrow> scored list \<Rightarrow> rule list \<Rightarrow> scored list \<times> scored list" where
  "apply_force_keep_rules contains df rules =
     (if df = [] \<or> rules = [] then ([], df)
      else let m = force_keep_mask contains df rules
           in (select_rows df m, select_rows df (map Not m)))"

text \<open>The row-wise reading of one rule and of a rule list: what the mask holds at the
  position of a row.\<close>

definition rule_matches :: "(string \<Rightarrow> string \<Rightarrow> bool) \<Rightarrow> rule \<Rightarrow> scored \<Rightarrow> bool" where
  "rule_matches contains r a =
     (if rule_type r = Some ''keyword'' \<and> rule_values r \<noteq> None then
        contains (join ''|'' (the (rule_values r))) (title a)
      else if rule_type r = Some ''source'' \<and> rule_values r \<noteq> None then
        source a \<in> set (the (rule_values r))
      else if rule_type r = Some ''category'' \<and> rule_values r \<noteq> None then
        category a \<in> set (the (rule_values r))
      else if rule_type r = Some ''composite'' \<and> rule_conditions r \<noteq> None then
        list_all (\<lambda>(key, v).
            if key = ''source'' then source a = v
            else if key = ''category'' then category a = v
            else if key = ''keyword'' then contains v (title a)
            else True) (the (rule_conditions r))
      else False)"

definition force_keep :: "(string \<Rightarrow> string \<Rightarrow> bool) \<Rightarrow> rule list \<Rightarrow> scored \<Rightarrow> bool" where
  "force_keep contains rules a = list_ex (\<lambda>r. rule_matches contains r a) rules"

subsection \<open>Ranking and quota selection\<close>

text \<open>
  \<^verbatim>\<open>candidate_df.sort_values(by='importance_score', ascending=False)\<close> is a call into
  pandas with the default \<^verbatim>\<open>kind='quicksort'\<close>. The sort is a parameter of the model;
  what the call promises is that the result holds the same rows in non-increasing score
  order. The order it gives to rows of equal score is decided inside pandas and is not
  part of the model.
\<close>

definition sort_contract :: "(scored list \<Rightarrow> scored list) \<Rightarrow> bool" where
  "sort_contract srt \<longleftrightarrow>
     (\<forall>df. mset (srt df) = mset df \<and>
           sorted_wrt (\<lambda>a b. importance_score a \<ge> importance_score b) (srt df))"

text \<open>A sort that keeps the promise, for the scenarios.\<close>

definition sort_desc_stable :: "scored list \<Rightarrow> scored list" where
  "sort_desc_stable df = sort_key (\<lambda>a. - importance_score a) df"

text \<open>
  The walk over the ranked candidates. \<^verbatim>\<open>category_counts\<close> has the keys of the quota
  table; \<^verbatim>\<open>CATEGORY_QUOTAS[cat]\<close> is read only for a key of \<^verbatim>\<open>category_counts\<close>, and
  would raise \<^verbatim>\<open>KeyError\<close> for a key the table lacks. \<^verbatim>\<open>break\<close> ends the walk with
  the selection made so far.
\<close>

fun quota_walk ::
  "(string, int) fmap \<Rightarrow> int \<Rightarrow> (string, int) fmap \<Rightarrow> scored list \<Rightarrow> scored list
     \<Rightarrow> py_error + scored list" where
  "quota_walk quotas total_limit category_counts quota_selection [] = Inr quota_selection"
| "quota_walk quotas total_limit category_counts quota_selection (row # rows) =
     (if int (length quota_selection) \<ge> total_limit then Inr quota_selection
      else case fmlookup category_counts (category row) of
             Some n \<Rightarrow>
               (case fmlookup quotas (category row) of
                  None \<Rightarrow> Inl KeyError
                | Some q \<Rightarrow>
                    if n < q then
                      quota_walk quotas total_limit
                        (fmupd (category row) (n + 1) category_counts)
                        (quota_selection @ [row]) rows
                    else quota_walk quotas total_limit category_counts quota_selection rows)
           | None \<Rightarrow>
               quota_walk quotas total_limit category_counts (quota_selection @ [row]) rows)"

definition quota_select :: "(string, int) fmap \<Rightarrow> int \<Rightarrow> scored list \<Rightarrow> py_error + scored list" where
  "quota_select quotas total_limit ranked_candidates =
     quota_walk quotas total_limit (fmmap (\<lambda>_. 0) quotas) [] ranked_candidates"

text \<open>The bound of the quota table: the sum of its values (here with negative quotas
  counted as they act, as zero), and the number of candidates outside the table.\<close>

definition quota_sum :: "(string, int) fmap \<Rightarrow> int" where
  "quota_sum quotas = (\<Sum>c \<in> fmdom' quotas. max 0 (the (fmlookup quotas c)))"

definition raw_quota_sum :: "(string, int) fmap \<Rightarrow> int" where
  "raw_quota_sum quotas = (\<Sum>c \<in> fmdom' quotas. the (fmlookup quotas c))"

definition unbounded :: "(string, int) fmap \<Rightarrow> scored list \<Rightarrow> scored list" where
  "unbounded quotas df = filter (\<lambda>a. fmlookup quotas (category a) = None) df"

definition of_category :: "string \<Rightarrow> scored list \<Rightarrow> scored list" where
  "of_category c df = filter (\<lambda>a. category a = c) df"

subsection \<open>Merging the final list\<close>

text \<open>
  Lines 264 to 293 of \<^verbatim>\<open>main\<close>: partition, ranking, quota walk, concatenation,
  \<^verbatim>\<open>drop_duplicates(subset=['url', 'title'])\<close>, and the print of the category
  distribution. \<^verbatim>\<open>apply_force_keep_rules\<close> returns a frame without columns as the forced
  part when the rule list or the batch is empty, and an empty quota selection is a
  frame without columns too; the concatenation of two such frames has no
  \<^verbatim>\<open>category\<close> column, and \<^verbatim>\<open>final_list_df['category']\<close> raises \<^verbatim>\<open>KeyError\<close>.
\<close>

definition select_and_merge ::
  "(string \<Rightarrow> string \<Rightarrow> bool) \<Rightarrow> (scored list \<Rightarrow> scored list) \<Rightarrow> rule list
     \<Rightarrow> (string, int) fmap \<Rightarrow> int \<Rightarrow> scored list \<Rightarrow> py_error + scored list" where
  "select_and_merge contains srt rules quotas total_limit classified =
     (let (forced, candidates) = apply_force_keep_rules contains classified rules;
          ranked_candidates = srt candidates
      in case quota_select quotas total_limit ranked_candidates of
           Inl e \<Rightarrow> Inl e
         | Inr quota_selection \<Rightarrow>
             if (classified = [] \<or> rules = []) \<and> quota_selection = [] then Inl KeyError
             else Inr (drop_duplicates (\<lambda>a. (url a, title a)) (forced @ quota_selection)))"

section \<open>The run (\<^verbatim>\<open>main\<close>)\<close>

text \<open>
  What the run reads from outside: the scoring service, the regular-expression search,
  the sort of pandas, the parse of a publish time, the local date of the run and the
  clock, in seconds. The clock is read once: the write and the retention step that
  follows it see the same time.

  The parse of a publish time is \<^verbatim>\<open>dateutil_parse(...)\<close> followed by
  \<^verbatim>\<open>.astimezone().date()\<close>. It gives a local calendar date, or raises one of the
  three exceptions that the date loop catches (\<^verbatim>\<open>TypeError\<close>, \<^verbatim>\<open>ValueError\<close>,
  \<^verbatim>\<open>AttributeError\<close>), or raises another exception, which the loop does not catch: an
  instant whose local time falls outside the years that \<^verbatim>\<open>datetime\<close> has makes
  \<^verbatim>\<open>astimezone\<close> raise \<^verbatim>\<open>OverflowError\<close>.
\<close>

datatype parse_result = Local_date int | Caught | Raised

record env =
  scoring_service :: "string list \<Rightarrow> score_item list option"
  str_contains :: "string \<Rightarrow> string \<Rightarrow> bool"
  sort_values :: "scored list \<Rightarrow> scored list"
  local_date :: "string \<Rightarrow> parse_result"
  today_local_date :: int
  now :: int

record config =
  force_keep_rules :: "rule list"
  category_quotas :: "(string, int) fmap"
  selection_total_limit :: int
  retention_enabled :: bool
  days_to_keep :: int

text \<open>
  The frames that the run hands to its file writers, in the order of the calls:
  \<^verbatim>\<open>save_dataframe_to_files\<close> with the base name \<^verbatim>\<open>raw_articles\<close> or
  \<^verbatim>\<open>final_articles_with_content\<close>, and \<^verbatim>\<open>export_to_txt\<close>. Both writers return at once
  on an empty frame. The files themselves (names, time stamps, formats) are not
  modelled, and the writers are taken to succeed.
\<close>

datatype export =
    Raw_articles "article list"
  | Final_articles_with_content "scored list"
  | Txt "scored list"

definition save_dataframe_to_files :: "('a list \<Rightarrow> export) \<Rightarrow> 'a list \<Rightarrow> export list" where
  "save_dataframe_to_files base_filename df = (if df = [] then [] else [base_filename df])"

definition export_to_txt :: "scored list \<Rightarrow> export list" where
  "export_to_txt df = (if df = [] then [] else [Txt df])"

fun export_urls :: "export \<Rightarrow> string list" where
  "export_urls (Raw_articles df) = map url df"
| "export_urls (Final_articles_with_content df) = map url df"
| "export_urls (Txt df) = map url df"

text \<open>The exports of the final list: the table with content and the text digest.\<close>

fun final_export :: "export \<Rightarrow> bool" where
  "final_export (Raw_articles df) = False"
| "final_export (Final_articles_with_content df) = True"
| "final_export (Txt df) = True"

datatype outcome =
    NoData database
  | NoNewArticles database
  | NoTodayArticles database
  | ScoringFailed database
  | Crashed py_error
  | Completed "scored list" database

definition retention :: "config \<Rightarrow> env \<Rightarrow> database \<Rightarrow> database" where
  "retention cfg e db =
     (if retention_enabled cfg then clean_old_articles db (now e) (days_to_keep cfg) else db)"

text \<open>The incremental filter, \<^verbatim>\<open>raw[~raw['url'].isin(existing_urls)]\<close>.\<close>

definition new_articles_df :: "string set \<Rightarrow> article list \<Rightarrow> article list" where
  "new_articles_df existing_urls raw_combined =
     filter (\<lambda>a. url a \<notin> existing_urls) raw_combined"

text \<open>
  The date loop over the new articles, with the list \<^verbatim>\<open>filtered_articles\<close> that it
  fills. A row with an empty publish time is skipped; a row whose parse raises a caught
  exception is skipped; a row of another local date is skipped; a row of today is
  appended. A parse that raises any other exception ends the loop and the run with that
  exception.
\<close>

fun date_loop :: "env \<Rightarrow> article list \<Rightarrow> article list \<Rightarrow> py_error + article list" where
  "date_loop e filtered_articles [] = Inr filtered_articles"
| "date_loop e filtered_articles (row # rows) =
     (if publish_time row = [] then date_loop e filtered_articles rows
      else case local_date e (publish_time row) of
             Raised \<Rightarrow> Inl OverflowError
           | Caught \<Rightarrow> date_loop e filtered_articles rows
           | Local_date d \<Rightarrow>
               if d = today_local_date e then date_loop e (filtered_articles @ [row]) rows
               else date_loop e filtered_articles rows)"

text \<open>The stages of a run up to the batch that is scored. \<open>results\<close> are the frames of
  the source adapters in the order the pool hands them over; the empty ones are left
  out of the concatenation. \<open>today_new_articles_df\<close> is the frame of that name after the
  title deduplication, when the date loop has ended without an exception.\<close>

definition raw_combined_df :: "article list list \<Rightarrow> article list" where
  "raw_combined_df results = concat (filter (\<lambda>r. r \<noteq> []) results)"

definition today_new_articles_df ::
  "env \<Rightarrow> database \<Rightarrow> article list list \<Rightarrow> py_error + article list" where
  "today_new_articles_df e db results =
     (case date_loop e [] (new_articles_df (get_existing_urls db) (raw_combined_df results)) of
        Inl err \<Rightarrow> Inl err
      | Inr filtered_articles \<Rightarrow> Inr (drop_duplicates title filtered_articles))"

text \<open>
  \<^verbatim>\<open>main\<close>, from the connected archive (\<open>stored\<close> is the table it finds) and the
  frames of the adapters. The result is the list of the frames written to files and the
  outcome, which records where the run ends: at one of its four early returns, with an
  exception, or at its end with the final list and the archive it leaves. The copy of
  \<^verbatim>\<open>description\<close> to \<^verbatim>\<open>full_content\<close> and the summaries add columns to the final
  list; they change neither its rows nor the archive, and are not modelled.
\<close>

definition main ::
  "env \<Rightarrow> config \<Rightarrow> archive_entry list \<Rightarrow> article list list \<Rightarrow> export list \<times> outcome" where
  "main e cfg stored results =
     (let db = \<lparr>conn = True, table = stored\<rparr>;
          existing_urls = get_existing_urls db
      in if filter (\<lambda>r. r \<noteq> []) results = [] then ([], NoData db)
         else
           let raw_combined = raw_combined_df results;
               saved_raw = save_dataframe_to_files Raw_articles raw_combined;
               new_articles = new_articles_df existing_urls raw_combined
           in if new_articles = [] then (saved_raw, NoNewArticles (retention cfg e db))
              else
                (case date_loop e [] new_articles of
                   Inl err \<Rightarrow> (saved_raw, Crashed err)
                 | Inr filtered_articles \<Rightarrow>
                     if filtered_articles = [] then (saved_raw, NoTodayArticles db)
                     else
                       let saved_today = save_dataframe_to_files Raw_articles filtered_articles;
                           today_new = drop_duplicates title filtered_articles;
                           classified = ai_rank_and_classify_articles (scoring_service e) today_new
                       in if list_all (\<lambda>a. category a = unknown) classified then
                            (saved_raw @ saved_today, ScoringFailed db)
                          else
                            (case select_and_merge (str_contains e) (sort_values e)
                                    (force_keep_rules cfg) (category_quotas cfg)
                                    (selection_total_limit cfg) (add_frequency_bonus classified) of
                               Inl err \<Rightarrow> (saved_raw @ saved_today, Crashed err)
                             | Inr final_list \<Rightarrow>
                                 (saved_raw @ saved_today
                                    @ save_dataframe_to_files Final_articles_with_content final_list
                                    @ export_to_txt final_list,
                                  Completed final_list
                                    (retention cfg e
                                       (write_new_articles db (now e) today_new))))))"

text \<open>The table a run leaves behind (a run that ends with an exception has written
  nothing), and the urls the run has added to it.\<close>

fun store_after :: "archive_entry list \<Rightarrow> outcome \<Rightarrow> archive_entry list" where
  "store_after stored (NoData db) = table db"
| "store_after stored (NoNewArticles db) = table db"
| "store_after stored (NoTodayArticles db) = table db"
| "store_after stored (ScoringFailed db) = table db"
| "store_after stored (Crashed err) = stored"
| "store_after stored (Completed final_list db) = table db"

definition persisted_urls :: "archive_entry list \<Rightarrow> outcome \<Rightarrow> string set" where
  "persisted_urls stored out = set (map url (store_after stored out)) - set (map url stored)"

fun completed :: "outcome \<Rightarrow> bool" where
  "completed (Completed final_list db) = True"
| "completed out = False"

section \<open>Scenarios\<close>

text \<open>Concrete rows, services and configurations, for the scenarios of the
  specification and for the instances at which the theorems below are applied.\<close>

definition mk_article :: "string \<Rightarrow> string \<Rightarrow> string \<Rightarrow> string \<Rightarrow> article" where
  "mk_article u t s p = \<lparr>url = u, title = t, source = s, publish_time = p, description = []\<rparr>"

definition tech :: "string \<Rightarrow> int \<Rightarrow> scored" where
  "tech u sc = with_score (mk_article u u ''feed'' ''today'') sc ''tech''"

definition scored_row :: "string \<Rightarrow> string \<Rightarrow> string \<Rightarrow> int \<Rightarrow> string \<Rightarrow> scored" where
  "scored_row u t s sc c = with_score (mk_article u t s ''today'') sc c"

definition art_a :: article where
  "art_a = mk_article ''http://a'' ''A'' ''feed'' ''today''"

definition art_b :: article where
  "art_b = mk_article ''http://b'' ''B'' ''feed'' ''today''"

text \<open>One story reported by two feeds under two urls.\<close>

definition story_a :: article where
  "story_a = mk_article ''http://a/story'' ''Story'' ''feed A'' ''today''"

definition story_b :: article where
  "story_b = mk_article ''http://b/story'' ''Story'' ''feed B'' ''today''"

text \<open>Two articles that an adapter has split out of one feed entry: they have the
  url of the entry and their own titles.\<close>

definition part_one :: article where
  "part_one = mk_article ''http://digest'' ''Part one'' ''feed'' ''today''"

definition part_two :: article where
  "part_two = mk_article ''http://digest'' ''Part two'' ''feed'' ''today''"

definition scenario_env ::
  "(string list \<Rightarrow> score_item list option) \<Rightarrow> (scored list \<Rightarrow> scored list) \<Rightarrow> env" where
  "scenario_env service srt =
     \<lparr>scoring_service = service, str_contains = (\<lambda>pat s. False), sort_values = srt,
      local_date = (\<lambda>s. if s = ''today'' then Local_date 0
                        else if s = ''yesterday'' then Local_date (- 1)
                        else if s = ''0001-01-01T00:00:00+14:00'' then Raised
                        else Caught),
      today_local_date = 0, now = 1000000\<rparr>"

definition scenario_config :: "rule list \<Rightarrow> (string \<times> int) list \<Rightarrow> int \<Rightarrow> config" where
  "scenario_config rules quotas limit =
     \<lparr>force_keep_rules = rules, category_quotas = fmap_of_list quotas,
      selection_total_limit = limit, retention_enabled = False, days_to_keep = 7\<rparr>"

definition failing_service :: "string list \<Rightarrow> score_item list option" where
  "failing_service titles = None"

text \<open>A service that gives every title it is asked about the score 5 and the
  category \<open>tech\<close>.\<close>

definition tech5_service :: "string list \<Rightarrow> score_item list option" where
  "tech5_service titles =
     Some (map (\<lambda>t. \<lparr>item_title = t, item_score = 5, item_category = ''tech''\<rparr>) titles)"

section \<open>Force-keep partition\<close>

lemma mask_or_map: "mask_or (map f df) (map g df) = map (\<lambda>a. f a \<or> g a) df"
  by (induction df) (simp_all add: mask_or_def)

lemma mask_and_map: "mask_and (map f df) (map g df) = map (\<lambda>a. f a \<and> g a) df"
  by (induction df) (simp_all add: mask_and_def)

lemma composite_mask_map:
  "composite_mask contains df (map f df) conds =
     map (\<lambda>a. f a \<and> list_all (\<lambda>(key, v).
            if key = ''source'' then source a = v
            else if key = ''category'' then category a = v
            else if key = ''keyword'' then contains v (title a)
            else True) conds) df"
proof (induction conds arbitrary: f)
  case Nil
  then show ?case by simp
next
  case (Cons kv conds)
  obtain key v where kv: "kv = (key, v)" by (cases kv)
  show ?case
    unfolding kv composite_mask.simps
    by (simp add: mask_and_map Cons.IH conj_assoc)
qed

lemma replicate_map_const: "replicate (length df) b = map (\<lambda>_. b) df"
  by (induction df) simp_all

lemma apply_rule_map:
  "apply_rule contains df (map f df) r = map (\<lambda>a. f a \<or> rule_matches contains r a) df"
  by (auto simp add: apply_rule_def rule_matches_def mask_or_map replicate_map_const
      composite_mask_map)

lemma force_keep_mask_foldl:
  "foldl (apply_rule contains df) (map f df) rules =
     map (\<lambda>a. f a \<or> list_ex (\<lambda>r. rule_matches contains r a) rules) df"
  by (induction rules arbitrary: f) (simp_all add: apply_rule_map disj_assoc)

text \<open>The mask that the loop over the rules builds holds, at every row, whether some
  rule matches the row.\<close>

lemma force_keep_mask_eq:
  "force_keep_mask contains df rules = map (force_keep contains rules) df"
  by (simp add: force_keep_mask_def replicate_map_const force_keep_mask_foldl force_keep_def)

lemma select_rows_map: "select_rows df (map P df) = filter P df"
  by (induction df) (simp_all add: select_rows_def)

lemma select_rows_map_Not: "select_rows df (map Not (map P df)) = filter (\<lambda>a. \<not> P a) df"
  by (induction df) (simp_all add: select_rows_def)

lemma apply_force_keep_rules_eq:
  "apply_force_keep_rules contains df rules =
     (filter (force_keep contains rules) df, filter (\<lambda>a. \<not> force_keep contains rules a) df)"
  by (auto simp add: apply_force_keep_rules_def Let_def force_keep_mask_eq select_rows_map
      select_rows_map_Not force_keep_def comp_def)

text \<open>
  Claim C10. For every input batch and rule list, \<^verbatim>\<open>apply_force_keep_rules\<close> splits the
  rows into two parts that together hold every row of the input exactly as often as the
  input does, and no row is in both parts. For an empty batch, and for an empty rule
  list, the forced part is empty and the candidates are the input unchanged.
\<close>

theorem apply_force_keep_rules_partition:
  "mset (fst (apply_force_keep_rules contains df rules)) +
     mset (snd (apply_force_keep_rules contains df rules)) = mset df \<and>
   set (fst (apply_force_keep_rules contains df rules)) \<inter>
     set (snd (apply_force_keep_rules contains df rules)) = {} \<and>
   apply_force_keep_rules contains [] rules = ([], []) \<and>
   apply_force_keep_rules contains df [] = ([], df)"
  by (auto simp add: apply_force_keep_rules_eq force_keep_def)

section \<open>Quota selection\<close>

lemma quota_walk_returns:
  "fmdom' counts \<subseteq> fmdom' quotas \<Longrightarrow> \<exists>sel'. quota_walk quotas T counts sel rows = Inr sel'"
proof (induction rows arbitrary: counts sel)
  case Nil
  then show ?case by simp
next
  case (Cons row rows)
  show ?case
  proof (cases "fmlookup counts (category row)")
    case None
    then show ?thesis using Cons.IH [OF Cons.prems] by simp
  next
    case (Some n)
    then have "category row \<in> fmdom' counts" by (simp add: fmlookup_dom'_iff)
    then have inQ: "category row \<in> fmdom' quotas" using Cons.prems by blast
    then obtain q where q: "fmlookup quotas (category row) = Some q"
      by (auto simp add: fmlookup_dom'_iff)
    have "fmdom' (fmupd (category row) (n + 1) counts) \<subseteq> fmdom' quotas"
      using Cons.prems inQ by simp
    from Cons.IH [OF this] Cons.IH [OF Cons.prems] show ?thesis
      using Some q by simp
  qed
qed

lemma quota_walk_extends:
  "quota_walk quotas T counts sel rows = Inr sel' \<Longrightarrow>
     \<exists>picked. sel' = sel @ picked \<and> subseq picked rows"
proof (induction rows arbitrary: counts sel)
  case Nil
  then show ?case by simp
next
  case (Cons row rows)
  show ?case
  proof (cases "int (length sel) \<ge> T")
    case True
    then show ?thesis using Cons.prems by simp
  next
    case False
    note open_ = this
    show ?thesis
    proof (cases "fmlookup counts (category row)")
      case None
      then have "quota_walk quotas T counts (sel @ [row]) rows = Inr sel'"
        using Cons.prems open_ by simp
      from Cons.IH [OF this] obtain picked where "sel' = (sel @ [row]) @ picked" "subseq picked rows"
        by blast
      then have "sel' = sel @ (row # picked) \<and> subseq (row # picked) (row # rows)" by simp
      then show ?thesis by blast
    next
      case (Some n)
      show ?thesis
      proof (cases "fmlookup quotas (category row)")
        case None
        then show ?thesis using Cons.prems open_ Some by simp
      next
        case (Some q)
        note q = this
        show ?thesis
        proof (cases "n < q")
          case True
          then have "quota_walk quotas T (fmupd (category row) (n + 1) counts) (sel @ [row]) rows = Inr sel'"
            using Cons.prems open_ \<open>fmlookup counts (category row) = Some n\<close> q by simp
          from Cons.IH [OF this] obtain picked where "sel' = (sel @ [row]) @ picked" "subseq picked rows"
            by blast
          then have "sel' = sel @ (row # picked) \<and> subseq (row # picked) (row # rows)" by simp
          then show ?thesis by blast
        next
          case False
          then have "quota_walk quotas T counts sel rows = Inr sel'"
            using Cons.prems open_ \<open>fmlookup counts (category row) = Some n\<close> q by simp
          from Cons.IH [OF this] obtain picked where "sel' = sel @ picked" "subseq picked rows"
            by blast
          then have "sel' = sel @ picked \<and> subseq picked (row # rows)"
            by (simp add: list_emb_Cons)
          then show ?thesis by blast
        qed
      qed
    qed
  qed
qed

lemma quota_walk_length:
  "quota_walk quotas T counts sel rows = Inr sel' \<Longrightarrow> int (length sel') \<le> max T (int (length sel))"
proof (induction rows arbitrary: counts sel)
  case Nil
  then show ?case by simp
next
  case (Cons row rows)
  show ?case
  proof (cases "int (length sel) \<ge> T")
    case True
    then show ?thesis using Cons.prems by simp
  next
    case False
    then have *: "max T (int (length (sel @ [row]))) = max T (int (length sel))" by simp
    show ?thesis
      using Cons.prems False Cons.IH [of counts "sel @ [row]"] Cons.IH [of counts sel]
        Cons.IH [of "fmupd (category row) (the (fmlookup counts (category row)) + 1) counts" "sel @ [row]"]
      unfolding *
      by (auto split: option.splits if_splits)
  qed
qed

lemma quota_walk_category:
  "quota_walk quotas T counts sel rows = Inr sel' \<Longrightarrow>
   fmlookup counts c = Some (int (length (of_category c sel))) \<Longrightarrow>
   fmlookup quotas c = Some q \<Longrightarrow>
   int (length (of_category c sel')) \<le> max q (int (length (of_category c sel)))"
proof (induction rows arbitrary: counts sel)
  case Nil
  then show ?case by simp
next
  case (Cons row rows)
  show ?case
  proof (cases "int (length sel) \<ge> T")
    case True
    then show ?thesis using Cons.prems by simp
  next
    case False
    note open_ = this
    show ?thesis
    proof (cases "category row = c")
      case True
      show ?thesis
      proof (cases "int (length (of_category c sel)) < q")
        case True
        have w: "quota_walk quotas T (fmupd c (int (length (of_category c sel)) + 1) counts) (sel @ [row]) rows = Inr sel'"
          using Cons.prems open_ \<open>category row = c\<close> True by simp
        have "fmlookup (fmupd c (int (length (of_category c sel)) + 1) counts) c =
              Some (int (length (of_category c (sel @ [row]))))"
          using \<open>category row = c\<close> by (simp add: of_category_def)
        from Cons.IH [OF w this Cons.prems(3)]
        show ?thesis using True \<open>category row = c\<close> by (simp add: of_category_def)
      next
        case False
        have w: "quota_walk quotas T counts sel rows = Inr sel'"
          using Cons.prems open_ \<open>category row = c\<close> False by simp
        from Cons.IH [OF w Cons.prems(2) Cons.prems(3)] show ?thesis .
      qed
    next
      case False
      note other = this
      have same: "of_category c (sel @ [row]) = of_category c sel"
        using other by (simp add: of_category_def)
      show ?thesis
      proof (cases "fmlookup counts (category row)")
        case None
        then have w: "quota_walk quotas T counts (sel @ [row]) rows = Inr sel'"
          using Cons.prems open_ by simp
        from Cons.IH [OF w] Cons.prems(2,3) same show ?thesis by simp
      next
        case (Some n)
        show ?thesis
        proof (cases "fmlookup quotas (category row)")
          case None
          then show ?thesis using Cons.prems open_ Some by simp
        next
          case (Some q')
          show ?thesis
          proof (cases "n < q'")
            case True
            then have w: "quota_walk quotas T (fmupd (category row) (n + 1) counts) (sel @ [row]) rows = Inr sel'"
              using Cons.prems open_ \<open>fmlookup counts (category row) = Some n\<close> Some by simp
            have "fmlookup (fmupd (category row) (n + 1) counts) c = Some (int (length (of_category c (sel @ [row]))))"
              using other Cons.prems(2) same by simp
            from Cons.IH [OF w this Cons.prems(3)] same show ?thesis by simp
          next
            case False
            then have w: "quota_walk quotas T counts sel rows = Inr sel'"
              using Cons.prems open_ \<open>fmlookup counts (category row) = Some n\<close> Some by simp
            from Cons.IH [OF w Cons.prems(2) Cons.prems(3)] show ?thesis .
          qed
        qed
      qed
    qed
  qed
qed

lemma quota_walk_unbounded:
  "quota_walk quotas T counts sel rows = Inr sel' \<Longrightarrow>
   fmdom' counts = fmdom' quotas \<Longrightarrow>
   int (length sel') < T \<Longrightarrow>
   unbounded quotas sel' = unbounded quotas sel @ unbounded quotas rows"
proof (induction rows arbitrary: counts sel)
  case Nil
  then show ?case by (simp add: unbounded_def)
next
  case (Cons row rows)
  from quota_walk_extends [OF Cons.prems(1)] have "length sel \<le> length sel'" by auto
  then have open_: "\<not> int (length sel) \<ge> T" using Cons.prems(3) by simp
  show ?case
  proof (cases "fmlookup counts (category row)")
    case None
    then have "category row \<notin> fmdom' quotas"
      using Cons.prems(2) by (metis fmlookup_dom'_iff option.distinct(1))
    then have unb: "fmlookup quotas (category row) = None"
      by (meson fmlookup_dom'_iff option.exhaust)
    have w: "quota_walk quotas T counts (sel @ [row]) rows = Inr sel'"
      using Cons.prems(1) open_ None by simp
    from Cons.IH [OF w Cons.prems(2,3)] unb show ?thesis by (simp add: unbounded_def)
  next
    case (Some n)
    then have inQ: "category row \<in> fmdom' quotas"
      using Cons.prems(2) by (metis fmlookup_dom'_iff)
    then obtain q where q: "fmlookup quotas (category row) = Some q"
      by (auto simp add: fmlookup_dom'_iff)
    have dom': "fmdom' (fmupd (category row) (n + 1) counts) = fmdom' quotas"
      using Cons.prems(2) inQ by auto
    show ?thesis
    proof (cases "n < q")
      case True
      then have w: "quota_walk quotas T (fmupd (category row) (n + 1) counts) (sel @ [row]) rows = Inr sel'"
        using Cons.prems(1) open_ Some q by simp
      from Cons.IH [OF w dom' Cons.prems(3)] q show ?thesis by (simp add: unbounded_def)
    next
      case False
      then have w: "quota_walk quotas T counts sel rows = Inr sel'"
        using Cons.prems(1) open_ Some q by simp
      from Cons.IH [OF w Cons.prems(2,3)] q show ?thesis by (simp add: unbounded_def)
    qed
  qed
qed

lemma length_by_key:
  "finite S \<Longrightarrow>
     int (length xs) =
       (\<Sum>c\<in>S. int (length (filter (\<lambda>a. f a = c) xs))) + int (length (filter (\<lambda>a. f a \<notin> S) xs))"
proof (induction xs)
  case Nil
  then show ?case by simp
next
  case (Cons x xs)
  have split: "(\<Sum>c\<in>S. int (length (filter (\<lambda>a. f a = c) (x # xs)))) =
        (\<Sum>c\<in>S. (if f x = c then 1 else 0)) + (\<Sum>c\<in>S. int (length (filter (\<lambda>a. f a = c) xs)))"
    unfolding sum.distrib [symmetric] by (rule sum.cong) simp_all
  have delta: "(\<Sum>c\<in>S. (if f x = c then 1 else 0 :: int)) = (if f x \<in> S then 1 else 0)"
    using Cons.prems by (simp add: sum.delta')
  show ?case
    unfolding split delta using Cons.IH [OF Cons.prems] by simp
qed

lemma length_subseq_filter: "subseq xs ys \<Longrightarrow> length (filter P xs) \<le> length (filter P ys)"
  by (metis list_emb_length subseq_filter)

text \<open>
  Claim C2, as the code has it. For every quota table, total limit and list of ranked
  candidates the walk returns a selection (it does not raise). The selection has at
  most \<open>min T (sum of the quotas + number of candidates outside the table)\<close> rows and
  at most \<open>Q[c]\<close> rows of a category \<open>c\<close> of the table, where a negative limit and a
  negative quota act as zero. A category outside the table is limited by the total
  limit only: when the selection ends below the limit, it holds every candidate of such
  categories. The selection is a subsequence of the ranked candidates.
\<close>

theorem quota_selection_ceiling:
  "\<exists>sel. quota_select quotas T ranked = Inr sel \<and>
     int (length sel) \<le> max 0 (min T (quota_sum quotas + int (length (unbounded quotas ranked)))) \<and>
     (\<forall>c q. fmlookup quotas c = Some q \<longrightarrow> int (length (of_category c sel)) \<le> max 0 q) \<and>
     (int (length sel) < T \<longrightarrow> unbounded quotas sel = unbounded quotas ranked) \<and>
     subseq sel ranked"
proof -
  let ?counts = "fmmap (\<lambda>_. 0::int) quotas"
  have dom: "fmdom' ?counts = fmdom' quotas" by simp
  from quota_walk_returns [of ?counts quotas T "[]" ranked] obtain sel
    where w: "quota_walk quotas T ?counts [] ranked = Inr sel" by auto
  from quota_walk_extends [OF w] have sub: "subseq sel ranked" by simp
  from quota_walk_length [OF w] have lenT: "int (length sel) \<le> max T 0" by simp
  have cat: "int (length (of_category c sel)) \<le> max 0 q" if q: "fmlookup quotas c = Some q" for c q
  proof -
    have "fmlookup ?counts c = Some (int (length (of_category c [])))"
      using q by (simp add: of_category_def)
    from quota_walk_category [OF w this q] show ?thesis by (simp add: of_category_def max.commute)
  qed
  have unb: "unbounded quotas sel = unbounded quotas ranked" if "int (length sel) < T"
    using quota_walk_unbounded [OF w dom that] by (simp add: unbounded_def)
  have fin: "finite (fmdom' quotas)" by (simp add: fmdom'_alt_def)
  have sum_le: "(\<Sum>c\<in>fmdom' quotas. int (length (filter (\<lambda>a. category a = c) sel))) \<le> quota_sum quotas"
    unfolding quota_sum_def
  proof (rule sum_mono)
    fix c assume "c \<in> fmdom' quotas"
    then obtain q where q: "fmlookup quotas c = Some q" by (auto simp add: fmlookup_dom'_iff)
    from cat [OF q] show "int (length (filter (\<lambda>a. category a = c) sel)) \<le> max 0 (the (fmlookup quotas c))"
      using q by (simp add: of_category_def)
  qed
  have unb_eq: "filter (\<lambda>a. category a \<notin> fmdom' quotas) xs = unbounded quotas xs" for xs
    unfolding unbounded_def
    by (rule filter_cong) (auto simp add: fmlookup_dom'_iff)
  have "int (length (unbounded quotas sel)) \<le> int (length (unbounded quotas ranked))"
    unfolding unbounded_def using length_subseq_filter [OF sub] by simp
  with length_by_key [OF fin, of sel category] sum_le
  have lenB: "int (length sel) \<le> quota_sum quotas + int (length (unbounded quotas ranked))"
    by (simp add: unb_eq)
  have "0 \<le> quota_sum quotas" unfolding quota_sum_def by (rule sum_nonneg) simp
  with lenT lenB have "int (length sel) \<le> max 0 (min T (quota_sum quotas + int (length (unbounded quotas ranked))))"
    by simp
  with w cat unb sub show ?thesis unfolding quota_select_def by blast
qed

text \<open>The scenario of the specification: quota 2 for one category, limit 3, five
  candidates of that category with scores 9 to 5.\<close>

theorem quota_selection_ceiling_witness:
  "fmlookup (fmap_of_list [(''tech'', 2)]) ''tech'' = Some 2 \<and>
   quota_select (fmap_of_list [(''tech'', 2)]) 3
     [tech ''a'' 9, tech ''b'' 8, tech ''c'' 7, tech ''d'' 6, tech ''e'' 5]
     = Inr [tech ''a'' 9, tech ''b'' 8] \<and>
   int (length (of_category ''tech'' [tech ''a'' 9, tech ''b'' 8])) \<le> max 0 2 \<and>
   int (length [tech ''a'' 9, tech ''b'' 8]) < 3 \<and>
   unbounded (fmap_of_list [(''tech'', 2)]) [tech ''a'' 9, tech ''b'' 8] =
     unbounded (fmap_of_list [(''tech'', 2)])
       [tech ''a'' 9, tech ''b'' 8, tech ''c'' 7, tech ''d'' 6, tech ''e'' 5]"
proof -
  let ?Q = "fmap_of_list [(''tech'', 2::int)]"
  let ?ranked = "[tech ''a'' 9, tech ''b'' 8, tech ''c'' 7, tech ''d'' 6, tech ''e'' 5]"
  have run: "quota_select ?Q 3 ?ranked = Inr [tech ''a'' 9, tech ''b'' 8]"
    by (simp add: quota_select_def tech_def with_score_def mk_article_def)
  have q: "fmlookup ?Q ''tech'' = Some 2" by simp
  from quota_selection_ceiling [of ?Q 3 ?ranked] obtain sel where
    sel: "quota_select ?Q 3 ?ranked = Inr sel" and
    cat: "\<forall>c q. fmlookup ?Q c = Some q \<longrightarrow> int (length (of_category c sel)) \<le> max 0 q" and
    unb: "int (length sel) < 3 \<longrightarrow> unbounded ?Q sel = unbounded ?Q ?ranked"
    by blast
  from sel run have eq: "sel = [tech ''a'' 9, tech ''b'' 8]" by simp
  from cat q have "int (length (of_category ''tech'' sel)) \<le> max 0 2" by blast
  moreover from unb eq have "unbounded ?Q sel = unbounded ?Q ?ranked" by simp
  ultimately have "int (length (of_category ''tech'' [tech ''a'' 9, tech ''b'' 8])) \<le> max 0 2 \<and>
        unbounded ?Q [tech ''a'' 9, tech ''b'' 8] = unbounded ?Q ?ranked"
    unfolding eq by simp
  with run q show ?thesis by simp
qed

text \<open>Claim C2 as the specification states it, with the limit and the quotas as they
  are, fails for a negative limit and for a negative quota: the walk selects nothing,
  which is more than a negative number of rows.\<close>

theorem quota_ceiling_negative_counterexample:
  "quota_select fmempty (- 1) [tech ''a'' 9] = Inr [] \<and>
   \<not> int (length ([] :: scored list))
       \<le> min (- 1) (raw_quota_sum fmempty + int (length (unbounded fmempty [tech ''a'' 9]))) \<and>
   fmlookup (fmap_of_list [(''tech'', - 1)]) ''tech'' = Some (- 1) \<and>
   quota_select (fmap_of_list [(''tech'', - 1)]) 3 [tech ''a'' 9] = Inr [] \<and>
   \<not> int (length (of_category ''tech'' [])) \<le> - 1"
  by (simp add: quota_select_def raw_quota_sum_def unbounded_def of_category_def
      tech_def with_score_def mk_article_def)

lemma quota_select_returns: "\<exists>sel. quota_select quotas T ranked = Inr sel"
  unfolding quota_select_def by (rule quota_walk_returns) simp

section \<open>Row deduplication\<close>

lemma drop_dups_seen_Nil_iff: "drop_dups_seen key seen xs = [] \<longleftrightarrow> key ` set xs \<subseteq> set seen"
  by (induction xs arbitrary: seen) auto

lemma drop_duplicates_Nil_iff: "drop_duplicates key xs = [] \<longleftrightarrow> xs = []"
  by (simp add: drop_duplicates_def drop_dups_seen_Nil_iff)

lemma set_drop_dups_seen: "set (drop_dups_seen key seen xs) \<subseteq> set xs"
  by (induction xs arbitrary: seen) auto

lemma keys_drop_dups_seen: "key ` set (drop_dups_seen key seen xs) = key ` set xs - set seen"
  by (induction xs arbitrary: seen) auto

lemma drop_dups_seen_append_mem:
  "x \<in> set (drop_dups_seen key seen xs) \<Longrightarrow> x \<in> set (drop_dups_seen key seen (xs @ ys))"
  by (induction xs arbitrary: seen) (auto split: if_splits)

lemma drop_dups_seen_id:
  "distinct (map key xs) \<Longrightarrow> key ` set xs \<inter> set seen = {} \<Longrightarrow> drop_dups_seen key seen xs = xs"
  by (induction xs arbitrary: seen) auto

lemma distinct_drop_dups_seen: "distinct (map key (drop_dups_seen key seen xs))"
proof (induction xs arbitrary: seen)
  case Nil
  then show ?case by simp
next
  case (Cons x xs)
  have "key x \<notin> key ` set (drop_dups_seen key (key x # seen) xs)"
    unfolding keys_drop_dups_seen by simp
  with Cons.IH show ?case by simp
qed

text \<open>After \<^verbatim>\<open>drop_duplicates\<close> the keys are pairwise distinct, every key of the input
  is still there, and a frame whose keys are distinct is left as it is.\<close>

lemma distinct_drop_duplicates: "distinct (map key (drop_duplicates key xs))"
  by (simp add: drop_duplicates_def distinct_drop_dups_seen)

lemma set_drop_duplicates: "set (drop_duplicates key xs) \<subseteq> set xs"
  by (simp add: drop_duplicates_def set_drop_dups_seen)

lemma keys_drop_duplicates: "key ` set (drop_duplicates key xs) = key ` set xs"
  by (simp add: drop_duplicates_def keys_drop_dups_seen)

lemma drop_duplicates_id: "distinct (map key xs) \<Longrightarrow> drop_duplicates key xs = xs"
  by (simp add: drop_duplicates_def drop_dups_seen_id)

lemma drop_duplicates_append_mem:
  "x \<in> set (drop_duplicates key xs) \<Longrightarrow> x \<in> set (drop_duplicates key (xs @ ys))"
  by (simp add: drop_duplicates_def drop_dups_seen_append_mem)

lemma distinct_map_filter_key:
  assumes inj: "\<And>x y. g x = g y \<Longrightarrow> f x = f y"
  shows "distinct (map f xs) \<Longrightarrow> distinct (map g (filter P xs))"
proof (induction xs)
  case Nil
  then show ?case by simp
next
  case (Cons x xs)
  have "g x \<notin> g ` set (filter P xs)"
  proof
    assume "g x \<in> g ` set (filter P xs)"
    then obtain y where y: "y \<in> set xs" "g x = g y" by auto
    from inj [OF y(2)] y(1) have "f x \<in> f ` set xs" by simp
    with Cons.prems show False by simp
  qed
  with Cons show ?case by simp
qed

section \<open>Frequency bonus\<close>

lemma length_filter_key_count: "length (filter (\<lambda>b. f b = t) xs) = count_list (map f xs) t"
  by (induction xs) simp_all

lemma length_frequency_bonus: "length (frequency_bonus df) = length df"
  by (simp add: frequency_bonus_def title_counts_def)

lemma frequency_bonus_nth:
  "i < length df \<Longrightarrow>
     frequency_bonus df ! i = min (int (count_list (map title df) (title (df ! i))) - 1) 2"
  by (simp add: frequency_bonus_def title_counts_def length_filter_key_count)

lemma count_list_pos: "x \<in> set xs \<Longrightarrow> 1 \<le> count_list xs x"
  by (induction xs) auto

text \<open>
  Claim C8. For every batch that the frequency step receives and every row of it, the
  step adds to the row's score a bonus that is \<open>min (n - 1) 2\<close>, where \<open>n\<close> is the
  number of rows of the batch with the row's title; the bonus is at least 0 and at
  most 2.
\<close>

theorem frequency_bonus_bounded:
  assumes "i < length df"
  shows "length (add_frequency_bonus df) = length df \<and>
    importance_score (add_frequency_bonus df ! i) = importance_score (df ! i) + frequency_bonus df ! i \<and>
    frequency_bonus df ! i = min (int (count_list (map title df) (title (df ! i))) - 1) 2 \<and>
    0 \<le> frequency_bonus df ! i \<and> frequency_bonus df ! i \<le> 2"
proof -
  have "title (df ! i) \<in> set (map title df)" using assms by simp
  from count_list_pos [OF this] have "1 \<le> count_list (map title df) (title (df ! i))" .
  then have "0 \<le> frequency_bonus df ! i \<and> frequency_bonus df ! i \<le> 2"
    using assms by (simp add: frequency_bonus_nth)
  then show ?thesis
    using assms by (simp add: add_frequency_bonus_def length_frequency_bonus frequency_bonus_nth)
qed

text \<open>The scenario of the specification: five rows, three titles, one of them three
  times. The first row has the repeated title and score 5, and leaves the step with
  score 7.\<close>

theorem frequency_bonus_bounded_witness:
  "(0::nat) < length
      [scored_row ''u1'' ''X'' ''s1'' 5 ''tech'', scored_row ''u2'' ''Y'' ''s1'' 5 ''tech'',
       scored_row ''u3'' ''X'' ''s2'' 5 ''tech'', scored_row ''u4'' ''Z'' ''s2'' 5 ''tech'',
       scored_row ''u5'' ''X'' ''s3'' 5 ''tech''] \<and>
   frequency_bonus
      [scored_row ''u1'' ''X'' ''s1'' 5 ''tech'', scored_row ''u2'' ''Y'' ''s1'' 5 ''tech'',
       scored_row ''u3'' ''X'' ''s2'' 5 ''tech'', scored_row ''u4'' ''Z'' ''s2'' 5 ''tech'',
       scored_row ''u5'' ''X'' ''s3'' 5 ''tech''] = [2, 0, 2, 0, 2] \<and>
   importance_score (add_frequency_bonus
      [scored_row ''u1'' ''X'' ''s1'' 5 ''tech'', scored_row ''u2'' ''Y'' ''s1'' 5 ''tech'',
       scored_row ''u3'' ''X'' ''s2'' 5 ''tech'', scored_row ''u4'' ''Z'' ''s2'' 5 ''tech'',
       scored_row ''u5'' ''X'' ''s3'' 5 ''tech''] ! 0) = 7"
proof -
  let ?df = "[scored_row ''u1'' ''X'' ''s1'' 5 ''tech'', scored_row ''u2'' ''Y'' ''s1'' 5 ''tech'',
       scored_row ''u3'' ''X'' ''s2'' 5 ''tech'', scored_row ''u4'' ''Z'' ''s2'' 5 ''tech'',
       scored_row ''u5'' ''X'' ''s3'' 5 ''tech'']"
  have len: "(0::nat) < length ?df" by simp
  have bonus: "frequency_bonus ?df = [2, 0, 2, 0, 2]"
    by (simp add: frequency_bonus_def title_counts_def scored_row_def with_score_def
        mk_article_def)
  from frequency_bonus_bounded [OF len]
  have "importance_score (add_frequency_bonus ?df ! 0)
          = importance_score (?df ! 0) + frequency_bonus ?df ! 0" by blast
  then have "importance_score (add_frequency_bonus ?df ! 0) = 7"
    unfolding bonus by (simp add: scored_row_def with_score_def)
  with len bonus show ?thesis by blast
qed

section \<open>Archive append\<close>

lemma insert_rows_eq:
  "insert_rows tbl rs =
     (if distinct (map url rs) \<and> set (map url rs) \<inter> set (map url tbl) = {}
      then Inr (tbl @ rs) else Inl IntegrityError)"
  by (induction rs arbitrary: tbl) auto

lemma url_stamp [simp]: "url (stamp t a) = url a"
  by (simp add: stamp_def)

lemma insert_timestamp_stamp [simp]: "insert_timestamp (stamp t a) = t"
  by (simp add: stamp_def)

lemma write_new_articles_eq:
  "conn db \<Longrightarrow>
     write_new_articles db t df =
       (if distinct (map url df) \<and> set (map url df) \<inter> set (map url (table db)) = {}
        then db\<lparr>table := table db @ map (stamp t) df\<rparr> else db)"
  by (simp add: write_new_articles_def to_sql_def insert_rows_eq comp_def)

text \<open>
  Claim C6, as the code has it. On an open connection the append is all or nothing:
  when the urls of the batch are pairwise distinct and none of them is in the table,
  every row is appended with the time stamp; otherwise (a primary-key collision) the
  exception of \<^verbatim>\<open>to_sql\<close> is caught, \<^verbatim>\<open>write_new_articles\<close> returns normally, and
  the table is as it was: no row of the batch is persisted.
\<close>

theorem write_new_articles_all_or_nothing:
  "conn db \<longrightarrow>
     (if distinct (map url df) \<and> set (map url df) \<inter> set (map url (table db)) = {}
      then write_new_articles db t df = db\<lparr>table := table db @ map (stamp t) df\<rparr>
      else write_new_articles db t df = db)"
  by (simp add: write_new_articles_eq)

text \<open>An archive that holds \<open>http://a\<close>: a batch with \<open>http://a\<close> and \<open>http://b\<close>
  leaves it unchanged, a batch with \<open>http://b\<close> alone is appended.\<close>

theorem write_new_articles_all_or_nothing_witness:
  "conn \<lparr>conn = True, table = [stamp 5 art_a]\<rparr> \<and>
   write_new_articles \<lparr>conn = True, table = [stamp 5 art_a]\<rparr> 9 [art_a, art_b]
     = \<lparr>conn = True, table = [stamp 5 art_a]\<rparr> \<and>
   write_new_articles \<lparr>conn = True, table = [stamp 5 art_a]\<rparr> 9 [art_b]
     = \<lparr>conn = True, table = [stamp 5 art_a, stamp 9 art_b]\<rparr>"
  using write_new_articles_all_or_nothing [of "\<lparr>conn = True, table = [stamp 5 art_a]\<rparr>" "[art_a, art_b]" 9]
    write_new_articles_all_or_nothing [of "\<lparr>conn = True, table = [stamp 5 art_a]\<rparr>" "[art_b]" 9]
  by (simp add: art_a_def art_b_def mk_article_def)

text \<open>Claim C6 as the specification states it (the colliding record is skipped and
  the other records of the batch are persisted) fails: the record with the new url
  \<open>http://b\<close> is not in the table after the call.\<close>

theorem append_collision_counterexample:
  "url art_a \<in> set (map url (table \<lparr>conn = True, table = [stamp 5 art_a]\<rparr>)) \<and>
   url art_b \<notin> set (map url (table \<lparr>conn = True, table = [stamp 5 art_a]\<rparr>)) \<and>
   url art_b \<notin> set (map url (table
      (write_new_articles \<lparr>conn = True, table = [stamp 5 art_a]\<rparr> 9 [art_a, art_b])))"
  by (simp add: write_new_articles_def to_sql_def art_a_def art_b_def mk_article_def stamp_def)

section \<open>The run up to the scoring check\<close>

text \<open>What the date loop returns is made of rows it was given, and the run is
  unfolded once for each way it can go on after the incremental filter.\<close>

lemma date_loop_set:
  "date_loop e acc rows = Inr xs \<Longrightarrow> set xs \<subseteq> set acc \<union> set rows"
proof (induction rows arbitrary: acc)
  case Nil
  then show ?case by auto
next
  case (Cons row rows)
  show ?case
  proof (cases "publish_time row = []")
    case True
    with Cons.prems have "date_loop e acc rows = Inr xs" by simp
    from Cons.IH [OF this] show ?thesis by auto
  next
    case False
    show ?thesis
    proof (cases "local_date e (publish_time row)")
      case (Local_date d)
      show ?thesis
      proof (cases "d = today_local_date e")
        case True
        with Cons.prems False Local_date have "date_loop e (acc @ [row]) rows = Inr xs" by simp
        from Cons.IH [OF this] show ?thesis by auto
      next
        case no: False
        with Cons.prems False Local_date have "date_loop e acc rows = Inr xs" by simp
        from Cons.IH [OF this] show ?thesis by auto
      qed
    next
      case Caught
      with Cons.prems False have "date_loop e acc rows = Inr xs" by simp
      from Cons.IH [OF this] show ?thesis by auto
    next
      case Raised
      with Cons.prems False show ?thesis by simp
    qed
  qed
qed

lemma today_new_InrD:
  assumes "today_new_articles_df e db results = Inr batch"
  obtains filtered where
    "date_loop e [] (new_articles_df (get_existing_urls db) (raw_combined_df results)) = Inr filtered"
    "batch = drop_duplicates title filtered"
  using assms by (auto simp add: today_new_articles_df_def split: sum.splits)

lemma main_after_filter:
  assumes dl: "date_loop e [] (new_articles_df (set (map url stored)) (raw_combined_df results))
                = Inr filtered"
    and ne: "filtered \<noteq> []"
  shows "main e cfg stored results =
     (if list_all (\<lambda>a. category a = unknown)
           (ai_rank_and_classify_articles (scoring_service e) (drop_duplicates title filtered))
      then ([Raw_articles (raw_combined_df results), Raw_articles filtered],
            ScoringFailed \<lparr>conn = True, table = stored\<rparr>)
      else (case select_and_merge (str_contains e) (sort_values e) (force_keep_rules cfg)
                   (category_quotas cfg) (selection_total_limit cfg)
                   (add_frequency_bonus
                      (ai_rank_and_classify_articles (scoring_service e)
                         (drop_duplicates title filtered))) of
              Inl err \<Rightarrow> ([Raw_articles (raw_combined_df results), Raw_articles filtered], Crashed err)
            | Inr final_list \<Rightarrow>
                ([Raw_articles (raw_combined_df results), Raw_articles filtered]
                   @ save_dataframe_to_files Final_articles_with_content final_list
                   @ export_to_txt final_list,
                 Completed final_list
                   (retention cfg e
                      (write_new_articles \<lparr>conn = True, table = stored\<rparr> (now e)
                         (drop_duplicates title filtered))))))"
proof -
  have new: "new_articles_df (set (map url stored)) (raw_combined_df results) \<noteq> []"
    using dl ne by (cases "new_articles_df (set (map url stored)) (raw_combined_df results)") auto
  then have raw: "raw_combined_df results \<noteq> []"
    by (auto simp add: new_articles_df_def)
  then have res: "filter (\<lambda>r. r \<noteq> []) results \<noteq> []"
    by (auto simp add: raw_combined_df_def filter_empty_conv)
  from dl ne new raw res show ?thesis
    by (simp add: main_def Let_def get_existing_urls_def save_dataframe_to_files_def
        split: sum.splits)
qed

lemma snd_main_after_filter:
  assumes tn: "today_new_articles_df e \<lparr>conn = True, table = stored\<rparr> results = Inr batch"
    and ne: "batch \<noteq> []"
  shows "snd (main e cfg stored results) =
     (if list_all (\<lambda>a. category a = unknown)
           (ai_rank_and_classify_articles (scoring_service e) batch)
      then ScoringFailed \<lparr>conn = True, table = stored\<rparr>
      else (case select_and_merge (str_contains e) (sort_values e) (force_keep_rules cfg)
                   (category_quotas cfg) (selection_total_limit cfg)
                   (add_frequency_bonus (ai_rank_and_classify_articles (scoring_service e) batch)) of
              Inl err \<Rightarrow> Crashed err
            | Inr final_list \<Rightarrow>
                Completed final_list
                  (retention cfg e
                     (write_new_articles \<lparr>conn = True, table = stored\<rparr> (now e) batch))))"
proof -
  from tn obtain filtered where
    dl: "date_loop e [] (new_articles_df (get_existing_urls \<lparr>conn = True, table = stored\<rparr>)
           (raw_combined_df results)) = Inr filtered"
    and b: "batch = drop_duplicates title filtered"
    by (rule today_new_InrD)
  from b ne have "filtered \<noteq> []" by (auto simp add: drop_duplicates_def)
  with dl show ?thesis
    unfolding b by (simp add: main_after_filter get_existing_urls_def split: sum.splits)
qed

lemma main_date_loop_raises:
  assumes "today_new_articles_df e \<lparr>conn = True, table = stored\<rparr> results = Inl err"
  shows "main e cfg stored results = ([Raw_articles (raw_combined_df results)], Crashed err)"
proof -
  let ?new = "new_articles_df (set (map url stored)) (raw_combined_df results)"
  from assms have dl: "date_loop e [] ?new = Inl err"
    by (auto simp add: today_new_articles_df_def get_existing_urls_def split: sum.splits)
  then have new: "?new \<noteq> []" by (cases ?new) auto
  then have raw: "raw_combined_df results \<noteq> []"
    by (auto simp add: new_articles_df_def)
  then have res: "filter (\<lambda>r. r \<noteq> []) results \<noteq> []"
    by (auto simp add: raw_combined_df_def filter_empty_conv)
  from dl new raw res show ?thesis
    by (simp add: main_def Let_def get_existing_urls_def save_dataframe_to_files_def)
qed

lemma main_before_scoring:
  assumes "today_new_articles_df e \<lparr>conn = True, table = stored\<rparr> results = Inr []"
  shows "snd (main e cfg stored results) = NoData \<lparr>conn = True, table = stored\<rparr> \<or>
         snd (main e cfg stored results)
           = NoNewArticles (retention cfg e \<lparr>conn = True, table = stored\<rparr>) \<or>
         snd (main e cfg stored results) = NoTodayArticles \<lparr>conn = True, table = stored\<rparr>"
proof -
  from assms obtain filtered where
    dl: "date_loop e [] (new_articles_df (get_existing_urls \<lparr>conn = True, table = stored\<rparr>)
           (raw_combined_df results)) = Inr filtered"
    and b: "[] = drop_duplicates title filtered"
    by (rule today_new_InrD)
  from b have "filtered = []" using drop_duplicates_Nil_iff [of title filtered] by simp
  with dl show ?thesis
    by (simp add: main_def Let_def get_existing_urls_def)
qed

lemma raw_export_first:
  assumes "filter (\<lambda>r. r \<noteq> []) results \<noteq> []"
  shows "\<exists>later. fst (main e cfg stored results) = Raw_articles (raw_combined_df results) # later"
proof -
  from assms have "raw_combined_df results \<noteq> []"
    by (auto simp add: raw_combined_df_def filter_empty_conv)
  with assms show ?thesis
    by (auto simp add: main_def Let_def save_dataframe_to_files_def split: sum.splits)
qed

section \<open>Scoring and titles\<close>

lemma title_with_score [simp]: "title (with_score a s c) = title a"
  by (simp add: with_score_def)

lemma url_with_score [simp]: "url (with_score a s c) = url a"
  by (simp add: with_score_def)

lemma titles_ai_rank:
  "map title (ai_rank_and_classify_articles service df) = map title df"
  by (auto simp add: ai_rank_and_classify_articles_def split: option.splits)

lemma urls_ai_rank:
  "map url (ai_rank_and_classify_articles service df) = map url df"
  by (auto simp add: ai_rank_and_classify_articles_def split: option.splits)

lemma distinct_titles_today_new:
  "today_new_articles_df e db results = Inr batch \<Longrightarrow> distinct (map title batch)"
  by (auto simp add: today_new_articles_df_def distinct_drop_duplicates split: sum.splits)

lemma count_list_distinct: "distinct xs \<Longrightarrow> x \<in> set xs \<Longrightarrow> count_list xs x = 1"
  by (induction xs) (auto simp add: count_list_0_iff)

lemma frequency_bonus_distinct:
  assumes "distinct (map title df)"
  shows "frequency_bonus df = replicate (length df) 0"
proof (rule nth_equalityI)
  show "length (frequency_bonus df) = length (replicate (length df) (0::int))"
    by (simp add: length_frequency_bonus)
next
  fix i assume "i < length (frequency_bonus df)"
  then have i: "i < length df" by (simp add: length_frequency_bonus)
  then have "title (df ! i) \<in> set (map title df)" by simp
  from count_list_distinct [OF assms this] i
  show "frequency_bonus df ! i = replicate (length df) 0 ! i"
    by (simp add: frequency_bonus_nth)
qed

lemma add_frequency_bonus_distinct:
  assumes "distinct (map title df)"
  shows "add_frequency_bonus df = df"
  unfolding add_frequency_bonus_def frequency_bonus_distinct [OF assms]
  by (induction df) simp_all

section \<open>Scenario runs\<close>

lemma tech_not_unknown: "''tech'' \<noteq> unknown"
  by (simp add: unknown_def)

lemma scenario_today_new_a:
  "today_new_articles_df (scenario_env service srt) \<lparr>conn = True, table = []\<rparr> [[art_a]]
     = Inr [art_a]"
  by (simp add: today_new_articles_df_def raw_combined_df_def get_existing_urls_def
      new_articles_df_def scenario_env_def art_a_def mk_article_def drop_duplicates_def)

lemma scenario_today_new_ab:
  "today_new_articles_df (scenario_env service srt) \<lparr>conn = True, table = []\<rparr> [[art_a], [art_b]]
     = Inr [art_a, art_b]"
  by (simp add: today_new_articles_df_def raw_combined_df_def get_existing_urls_def
      new_articles_df_def scenario_env_def art_a_def art_b_def mk_article_def
      drop_duplicates_def)

lemma scenario_classified_ab:
  "ai_rank_and_classify_articles (scoring_service (scenario_env tech5_service srt)) [art_a, art_b]
     = [with_score art_a 5 ''tech'', with_score art_b 5 ''tech'']"
  by (simp add: ai_rank_and_classify_articles_def scenario_env_def tech5_service_def
      drop_duplicates_def result_map_def art_a_def art_b_def mk_article_def)

lemma scenario_failing_run:
  "snd (main (scenario_env failing_service sort_desc_stable) (scenario_config [] [] 20) [] [[art_a]])
     = ScoringFailed \<lparr>conn = True, table = []\<rparr>"
proof -
  let ?e = "scenario_env failing_service sort_desc_stable"
  have "ai_rank_and_classify_articles (scoring_service ?e) [art_a] = [with_score art_a 0 unknown]"
    by (simp add: ai_rank_and_classify_articles_def scenario_env_def failing_service_def)
  then show ?thesis
    by (simp add: snd_main_after_filter [OF scenario_today_new_a] with_score_def)
qed

lemma scenario_today_new_digest:
  "today_new_articles_df (scenario_env service srt) \<lparr>conn = True, table = []\<rparr>
     [[part_one, part_two]] = Inr [part_one, part_two]"
  by (simp add: today_new_articles_df_def raw_combined_df_def get_existing_urls_def
      new_articles_df_def scenario_env_def part_one_def part_two_def mk_article_def
      drop_duplicates_def)

lemma scenario_digest_run:
  "snd (main (scenario_env tech5_service sort_desc_stable) (scenario_config [] [] 20) []
     [[part_one, part_two]])
   = Completed [with_score part_one 5 ''tech'', with_score part_two 5 ''tech'']
       \<lparr>conn = True, table = []\<rparr>"
proof -
  let ?e = "scenario_env tech5_service sort_desc_stable"
  let ?db = "\<lparr>conn = True, table = []\<rparr>"
  let ?rows = "[with_score part_one 5 ''tech'', with_score part_two 5 ''tech'']"
  have cls: "ai_rank_and_classify_articles (scoring_service ?e) [part_one, part_two] = ?rows"
    by (simp add: ai_rank_and_classify_articles_def scenario_env_def tech5_service_def
        drop_duplicates_def result_map_def part_one_def part_two_def mk_article_def)
  have bonus: "add_frequency_bonus ?rows = ?rows"
    by (rule add_frequency_bonus_distinct) (simp add: part_one_def part_two_def mk_article_def)
  have sel: "select_and_merge (str_contains ?e) (sort_values ?e)
      (force_keep_rules (scenario_config [] [] 20)) (category_quotas (scenario_config [] [] 20))
      (selection_total_limit (scenario_config [] [] 20)) ?rows = Inr ?rows"
    by (simp add: select_and_merge_def apply_force_keep_rules_eq force_keep_def scenario_env_def
        scenario_config_def sort_desc_stable_def quota_select_def drop_duplicates_def
        with_score_def part_one_def part_two_def mk_article_def)
  have wr: "retention (scenario_config [] [] 20) ?e
      (write_new_articles ?db (now ?e) [part_one, part_two]) = ?db"
    by (simp add: retention_def scenario_config_def write_new_articles_def to_sql_def
        scenario_env_def part_one_def part_two_def mk_article_def)
  have unk: "category (with_score part_one 5 ''tech'') \<noteq> unknown"
    by (simp add: with_score_def tech_not_unknown)
  show ?thesis
    by (simp add: snd_main_after_filter [OF scenario_today_new_digest] cls bonus sel wr unk)
qed

lemma scenario_today_new_story:
  "today_new_articles_df (scenario_env service srt) \<lparr>conn = True, table = []\<rparr>
     [[story_a], [story_b]] = Inr [story_a]"
  by (simp add: today_new_articles_df_def raw_combined_df_def get_existing_urls_def
      new_articles_df_def scenario_env_def story_a_def story_b_def mk_article_def
      drop_duplicates_def)

lemma scenario_story_run:
  "snd (main (scenario_env tech5_service sort_desc_stable) (scenario_config [] [] 20) []
     [[story_a], [story_b]])
   = Completed [with_score story_a 5 ''tech'']
       \<lparr>conn = True, table = [stamp 1000000 story_a]\<rparr>"
proof -
  let ?e = "scenario_env tech5_service sort_desc_stable"
  let ?db = "\<lparr>conn = True, table = []\<rparr>"
  have cls: "ai_rank_and_classify_articles (scoring_service ?e) [story_a]
      = [with_score story_a 5 ''tech'']"
    by (simp add: ai_rank_and_classify_articles_def scenario_env_def tech5_service_def
        drop_duplicates_def result_map_def)
  have bonus: "add_frequency_bonus [with_score story_a 5 ''tech''] = [with_score story_a 5 ''tech'']"
    by (rule add_frequency_bonus_distinct) simp
  have sel: "select_and_merge (str_contains ?e) (sort_values ?e)
      (force_keep_rules (scenario_config [] [] 20)) (category_quotas (scenario_config [] [] 20))
      (selection_total_limit (scenario_config [] [] 20)) [with_score story_a 5 ''tech'']
      = Inr [with_score story_a 5 ''tech'']"
    by (simp add: select_and_merge_def apply_force_keep_rules_eq force_keep_def scenario_env_def
        scenario_config_def sort_desc_stable_def quota_select_def drop_duplicates_def
        with_score_def)
  have wr: "retention (scenario_config [] [] 20) ?e
      (write_new_articles ?db (now ?e) [story_a]) = \<lparr>conn = True, table = [stamp 1000000 story_a]\<rparr>"
    by (simp add: retention_def scenario_config_def write_new_articles_def to_sql_def
        scenario_env_def)
  have unk: "category (with_score story_a 5 ''tech'') \<noteq> unknown"
    by (simp add: with_score_def tech_not_unknown)
  show ?thesis
    by (simp add: snd_main_after_filter [OF scenario_today_new_story] cls bonus sel wr unk)
qed

section \<open>Force-keep precedence\<close>

lemma forced_rows_in_final_list:
  assumes mem: "a \<in> set classified" and fk: "force_keep contains rules a"
  shows "\<exists>final. select_and_merge contains srt rules quotas T classified = Inr final \<and>
        (\<exists>b \<in> set final. url b = url a \<and> title b = title a \<and> force_keep contains rules b) \<and>
        (distinct (map title classified) \<longrightarrow> a \<in> set final)"
proof -
  let ?key = "\<lambda>x::scored. (url x, title x)"
  let ?forced = "filter (force_keep contains rules) classified"
  let ?cand = "filter (\<lambda>x. \<not> force_keep contains rules x) classified"
  from mem fk have a_forced: "a \<in> set ?forced" by simp
  from fk have rules: "rules \<noteq> []" by (auto simp add: force_keep_def)
  from mem have nonempty: "classified \<noteq> []" by auto
  from quota_select_returns [of quotas T "srt ?cand"] obtain sel
    where sel: "quota_select quotas T (srt ?cand) = Inr sel" by blast
  let ?final = "drop_duplicates ?key (?forced @ sel)"
  have run: "select_and_merge contains srt rules quotas T classified = Inr ?final"
    using sel rules nonempty by (simp add: select_and_merge_def apply_force_keep_rules_eq)
  have "?key a \<in> ?key ` set (drop_duplicates ?key ?forced)"
    unfolding keys_drop_duplicates using a_forced by (rule imageI)
  then obtain b where b: "b \<in> set (drop_duplicates ?key ?forced)" "?key b = ?key a" by auto
  from b(1) have b_final: "b \<in> set ?final" by (rule drop_duplicates_append_mem)
  from b(1) set_drop_duplicates [of ?key ?forced] have "force_keep contains rules b" by auto
  with b_final b(2)
  have part1: "\<exists>b \<in> set ?final. url b = url a \<and> title b = title a \<and> force_keep contains rules b"
    by auto
  have part2: "a \<in> set ?final" if d: "distinct (map title classified)"
  proof -
    have "distinct (map ?key ?forced)"
      using d by (rule distinct_map_filter_key [rotated]) simp
    then have "drop_duplicates ?key ?forced = ?forced" by (rule drop_duplicates_id)
    with a_forced have "a \<in> set (drop_duplicates ?key ?forced)" by simp
    then show ?thesis by (rule drop_duplicates_append_mem)
  qed
  from run part1 part2 show ?thesis by blast
qed

text \<open>
  Claim C5. For every scored batch, rule list, quota table, total limit and sort: when
  a row of the batch matches at least one force-keep rule, the selection returns a
  final list (it does not raise), and the final list holds a forced row with the url
  and title of that row, whatever its score, the quotas and the total limit; when the
  titles of the batch are pairwise distinct the final list holds the row itself. In a
  run the titles of the scored batch are pairwise distinct: every run whose date loop
  returns and that passes the scoring check is completed when a row of its scored
  batch matches a rule, and the final list of the run holds that row.
\<close>

theorem force_keep_precedence:
  "(a \<in> set classified \<and> force_keep contains rules a \<longrightarrow>
     (\<exists>final. select_and_merge contains srt rules quotas T classified = Inr final \<and>
        (\<exists>b \<in> set final. url b = url a \<and> title b = title a \<and> force_keep contains rules b) \<and>
        (distinct (map title classified) \<longrightarrow> a \<in> set final))) \<and>
   (today_new_articles_df e \<lparr>conn = True, table = stored\<rparr> results = Inr batch \<and>
    \<not> list_all (\<lambda>x. category x = unknown)
        (ai_rank_and_classify_articles (scoring_service e) batch) \<and>
    r \<in> set (add_frequency_bonus (ai_rank_and_classify_articles (scoring_service e) batch)) \<and>
    force_keep (str_contains e) (force_keep_rules cfg) r \<longrightarrow>
      (\<exists>final db'. snd (main e cfg stored results) = Completed final db' \<and> r \<in> set final))"
proof (intro conjI impI)
  assume "a \<in> set classified \<and> force_keep contains rules a"
  then show "\<exists>final. select_and_merge contains srt rules quotas T classified = Inr final \<and>
        (\<exists>b \<in> set final. url b = url a \<and> title b = title a \<and> force_keep contains rules b) \<and>
        (distinct (map title classified) \<longrightarrow> a \<in> set final)"
    using forced_rows_in_final_list by blast
next
  let ?db = "\<lparr>conn = True, table = stored\<rparr>"
  let ?cls = "ai_rank_and_classify_articles (scoring_service e) batch"
  assume asm: "today_new_articles_df e ?db results = Inr batch \<and>
    \<not> list_all (\<lambda>x. category x = unknown) ?cls \<and>
    r \<in> set (add_frequency_bonus ?cls) \<and>
    force_keep (str_contains e) (force_keep_rules cfg) r"
  then have tn: "today_new_articles_df e ?db results = Inr batch" by simp
  have d: "distinct (map title ?cls)"
    unfolding titles_ai_rank using tn by (rule distinct_titles_today_new)
  then have same: "add_frequency_bonus ?cls = ?cls" by (rule add_frequency_bonus_distinct)
  from asm same have mem: "r \<in> set ?cls" by simp
  then have ne: "batch \<noteq> []" by (auto simp add: ai_rank_and_classify_articles_def)
  from asm have fk: "force_keep (str_contains e) (force_keep_rules cfg) r" by simp
  from forced_rows_in_final_list [OF mem fk, of "sort_values e" "category_quotas cfg"
      "selection_total_limit cfg"] d
  obtain final where final: "select_and_merge (str_contains e) (sort_values e) (force_keep_rules cfg)
      (category_quotas cfg) (selection_total_limit cfg) ?cls = Inr final" and r: "r \<in> set final"
    by blast
  from asm have ok: "\<not> list_all (\<lambda>x. category x = unknown) ?cls" by simp
  have "snd (main e cfg stored results) = Completed final
      (retention cfg e (write_new_articles ?db (now e) batch))"
    unfolding snd_main_after_filter [OF tn ne] same using ok final by simp
  with r show "\<exists>final db'. snd (main e cfg stored results) = Completed final db' \<and> r \<in> set final"
    by blast
qed

text \<open>A forced row (matched by a source rule) with score 0, in a batch whose other
  rows score higher, with quota 0 for its category and total limit 0: the final list is
  the forced row. And a run on two new articles of today, both of a feed that a source
  rule keeps, with quota 0 and total limit 0: the run is completed and the final list
  holds the forced row.\<close>

theorem force_keep_precedence_witness:
  "scored_row ''u0'' ''Bulletin'' ''wire'' 0 ''tech''
     \<in> set [tech ''a'' 9, scored_row ''u0'' ''Bulletin'' ''wire'' 0 ''tech'', tech ''b'' 8] \<and>
   force_keep (\<lambda>pat s. False)
     [\<lparr>rule_type = Some ''source'', rule_values = Some [''wire''], rule_conditions = None\<rparr>]
     (scored_row ''u0'' ''Bulletin'' ''wire'' 0 ''tech'') \<and>
   distinct (map title [tech ''a'' 9, scored_row ''u0'' ''Bulletin'' ''wire'' 0 ''tech'', tech ''b'' 8]) \<and>
   select_and_merge (\<lambda>pat s. False) sort_desc_stable
     [\<lparr>rule_type = Some ''source'', rule_values = Some [''wire''], rule_conditions = None\<rparr>]
     (fmap_of_list [(''tech'', 0)]) 0
     [tech ''a'' 9, scored_row ''u0'' ''Bulletin'' ''wire'' 0 ''tech'', tech ''b'' 8]
   = Inr [scored_row ''u0'' ''Bulletin'' ''wire'' 0 ''tech''] \<and>
   (\<exists>final. select_and_merge (\<lambda>pat s. False) sort_desc_stable
     [\<lparr>rule_type = Some ''source'', rule_values = Some [''wire''], rule_conditions = None\<rparr>]
     (fmap_of_list [(''tech'', 0)]) 0
     [tech ''a'' 9, scored_row ''u0'' ''Bulletin'' ''wire'' 0 ''tech'', tech ''b'' 8] = Inr final \<and>
     scored_row ''u0'' ''Bulletin'' ''wire'' 0 ''tech'' \<in> set final) \<and>
   today_new_articles_df (scenario_env tech5_service sort_desc_stable)
      \<lparr>conn = True, table = []\<rparr> [[art_a], [art_b]] = Inr [art_a, art_b] \<and>
   \<not> list_all (\<lambda>x. category x = unknown)
      (ai_rank_and_classify_articles
         (scoring_service (scenario_env tech5_service sort_desc_stable)) [art_a, art_b]) \<and>
   with_score art_a 5 ''tech'' \<in> set (add_frequency_bonus
      (ai_rank_and_classify_articles
         (scoring_service (scenario_env tech5_service sort_desc_stable)) [art_a, art_b])) \<and>
   force_keep (str_contains (scenario_env tech5_service sort_desc_stable))
     (force_keep_rules (scenario_config
        [\<lparr>rule_type = Some ''source'', rule_values = Some [''feed''], rule_conditions = None\<rparr>]
        [(''tech'', 0)] 0))
     (with_score art_a 5 ''tech'') \<and>
   (\<exists>final db'. snd (main (scenario_env tech5_service sort_desc_stable)
      (scenario_config
        [\<lparr>rule_type = Some ''source'', rule_values = Some [''feed''], rule_conditions = None\<rparr>]
        [(''tech'', 0)] 0) [] [[art_a], [art_b]]) = Completed final db' \<and>
      with_score art_a 5 ''tech'' \<in> set final)"
proof -
  let ?a = "scored_row ''u0'' ''Bulletin'' ''wire'' 0 ''tech''"
  let ?batch = "[tech ''a'' 9, ?a, tech ''b'' 8]"
  let ?rules = "[\<lparr>rule_type = Some ''source'', rule_values = Some [''wire''], rule_conditions = None\<rparr>]"
  let ?c = "\<lambda>(pat::string) (s::string). False"
  let ?e = "scenario_env tech5_service sort_desc_stable"
  let ?cfg = "scenario_config
        [\<lparr>rule_type = Some ''source'', rule_values = Some [''feed''], rule_conditions = None\<rparr>]
        [(''tech'', 0)] 0"
  let ?db = "\<lparr>conn = True, table = []\<rparr>"
  let ?r = "[[art_a], [art_b]]"
  have mem: "?a \<in> set ?batch" by simp
  have fk: "force_keep ?c ?rules ?a"
    by (simp add: force_keep_def rule_matches_def scored_row_def with_score_def mk_article_def)
  have nfk: "\<not> force_keep ?c ?rules (tech u s)" for u s
    by (simp add: force_keep_def rule_matches_def tech_def with_score_def mk_article_def)
  have d: "distinct (map title ?batch)"
    by (simp add: tech_def scored_row_def with_score_def mk_article_def)
  have tn: "today_new_articles_df ?e ?db ?r = Inr [art_a, art_b]" by (rule scenario_today_new_ab)
  have ok: "\<not> list_all (\<lambda>x. category x = unknown)
      (ai_rank_and_classify_articles (scoring_service ?e) [art_a, art_b])"
    unfolding scenario_classified_ab by (simp add: with_score_def tech_not_unknown)
  have d': "distinct (map title [with_score art_a 5 ''tech'', with_score art_b 5 ''tech''])"
    by (simp add: art_a_def art_b_def mk_article_def)
  have mem': "with_score art_a 5 ''tech'' \<in> set (add_frequency_bonus
      (ai_rank_and_classify_articles (scoring_service ?e) [art_a, art_b]))"
    unfolding scenario_classified_ab add_frequency_bonus_distinct [OF d'] by simp
  have fk': "force_keep (str_contains ?e) (force_keep_rules ?cfg) (with_score art_a 5 ''tech'')"
    by (simp add: force_keep_def rule_matches_def scenario_config_def with_score_def art_a_def
        mk_article_def)
  from force_keep_precedence [of ?a ?batch ?c ?rules sort_desc_stable "fmap_of_list [(''tech'', 0)]" 0
      ?e "[]" ?r "[art_a, art_b]" "with_score art_a 5 ''tech''" ?cfg]
    mem fk d tn ok mem' fk'
  have ex: "(\<exists>final. select_and_merge ?c sort_desc_stable ?rules (fmap_of_list [(''tech'', 0)]) 0 ?batch
      = Inr final \<and> ?a \<in> set final) \<and>
      (\<exists>final db'. snd (main ?e ?cfg [] ?r) = Completed final db' \<and> with_score art_a 5 ''tech'' \<in> set final)"
    by blast
  have "select_and_merge ?c sort_desc_stable ?rules (fmap_of_list [(''tech'', 0)]) 0 ?batch = Inr [?a]"
    by (simp add: select_and_merge_def apply_force_keep_rules_eq fk nfk quota_select_def
        sort_desc_stable_def drop_duplicates_def)
  with mem fk d tn ok mem' fk' ex show ?thesis by blast
qed

section \<open>Scoring failure\<close>

lemma ai_rank_failure:
  "service (map title (drop_duplicates title df)) = None \<Longrightarrow>
     ai_rank_and_classify_articles service df = map (\<lambda>a. with_score a 0 unknown) df"
  by (simp add: ai_rank_and_classify_articles_def)

lemma no_final_export_before_selection:
  assumes "today_new_articles_df e \<lparr>conn = True, table = stored\<rparr> results = Inr batch"
    and "batch \<noteq> []"
    and "list_all (\<lambda>a. category a = unknown)
           (ai_rank_and_classify_articles (scoring_service e) batch)"
  shows "\<not> list_ex final_export (fst (main e cfg stored results))"
proof -
  from assms(1) obtain filtered where
    dl: "date_loop e [] (new_articles_df (get_existing_urls \<lparr>conn = True, table = stored\<rparr>)
           (raw_combined_df results)) = Inr filtered"
    and b: "batch = drop_duplicates title filtered"
    by (rule today_new_InrD)
  from b assms(2) have "filtered \<noteq> []" by (auto simp add: drop_duplicates_def)
  with dl assms(3) show ?thesis
    unfolding b by (simp add: main_after_filter get_existing_urls_def)
qed

text \<open>
  Claim C1, as the code has it. When the scoring service raises (or its answer cannot
  be parsed), \<^verbatim>\<open>ai_rank_and_classify_articles\<close> does not raise: it returns every row of
  the batch with score 0 and the unknown category. A run that has reached the scoring
  step then stops at the check that follows it (every category is the unknown one): it
  logs and returns, and force-keep, quota selection, the export of a final list and the
  archive write are not run; the archive is as it was.
\<close>

theorem scoring_failure_stops_run:
  "(service (map title (drop_duplicates title df)) = None \<longrightarrow>
       ai_rank_and_classify_articles service df = map (\<lambda>a. with_score a 0 unknown) df \<and>
       (\<forall>a \<in> set (ai_rank_and_classify_articles service df).
           importance_score a = 0 \<and> category a = unknown)) \<and>
   (today_new_articles_df e \<lparr>conn = True, table = stored\<rparr> results = Inr batch \<and>
    batch \<noteq> [] \<and>
    scoring_service e (map title (drop_duplicates title batch)) = None \<longrightarrow>
       snd (main e cfg stored results) = ScoringFailed \<lparr>conn = True, table = stored\<rparr> \<and>
       \<not> list_ex final_export (fst (main e cfg stored results)))"
proof -
  have a: "\<forall>a \<in> set (map (\<lambda>a. with_score a 0 unknown) xs). importance_score a = 0 \<and> category a = unknown"
    for xs :: "article list"
    by (simp add: with_score_def)
  have all: "list_all (\<lambda>a. category a = unknown)
      (ai_rank_and_classify_articles (scoring_service e) batch)"
    if "scoring_service e (map title (drop_duplicates title batch)) = None"
    using a that by (simp add: ai_rank_failure list_all_iff)
  have run: "snd (main e cfg stored results) = ScoringFailed \<lparr>conn = True, table = stored\<rparr> \<and>
       \<not> list_ex final_export (fst (main e cfg stored results))"
    if tn: "today_new_articles_df e \<lparr>conn = True, table = stored\<rparr> results = Inr batch"
      and ne: "batch \<noteq> []"
      and f: "scoring_service e (map title (drop_duplicates title batch)) = None"
    using snd_main_after_filter [OF tn ne, of cfg] no_final_export_before_selection [OF tn ne all [OF f]]
      all [OF f] by simp
  from a run show ?thesis
    by (auto simp add: ai_rank_failure)
qed

text \<open>A run with one new article of today and a service that raises.\<close>

theorem scoring_failure_stops_run_witness:
  "today_new_articles_df (scenario_env failing_service sort_desc_stable)
      \<lparr>conn = True, table = []\<rparr> [[art_a]] = Inr [art_a] \<and>
   [art_a] \<noteq> [] \<and>
   scoring_service (scenario_env failing_service sort_desc_stable)
      (map title (drop_duplicates title [art_a])) = None \<and>
   ai_rank_and_classify_articles failing_service [art_a] = [with_score art_a 0 unknown] \<and>
   snd (main (scenario_env failing_service sort_desc_stable) (scenario_config [] [] 20) [] [[art_a]])
     = ScoringFailed \<lparr>conn = True, table = []\<rparr> \<and>
   \<not> list_ex final_export
      (fst (main (scenario_env failing_service sort_desc_stable) (scenario_config [] [] 20) []
         [[art_a]]))"
proof -
  let ?e = "scenario_env failing_service sort_desc_stable"
  have tn: "today_new_articles_df ?e \<lparr>conn = True, table = []\<rparr> [[art_a]] = Inr [art_a]"
    by (rule scenario_today_new_a)
  have fail: "scoring_service ?e (map title (drop_duplicates title [art_a])) = None"
    by (simp add: scenario_env_def failing_service_def)
  have fail': "failing_service (map title (drop_duplicates title [art_a])) = None"
    by (simp add: failing_service_def)
  from scoring_failure_stops_run [of failing_service "[art_a]" ?e "[]" "[[art_a]]" "[art_a]"
      "scenario_config [] [] 20"] tn fail fail'
  show ?thesis by simp
qed

text \<open>Claim C1 as the specification states it (the pipeline continues to the
  subsequent steps) fails on that run: it ends at the scoring check and is not
  completed.\<close>

theorem scoring_failure_aborts_counterexample:
  "snd (main (scenario_env failing_service sort_desc_stable)
     (scenario_config [] [] 20) [] [[art_a]]) = ScoringFailed \<lparr>conn = True, table = []\<rparr> \<and>
   \<not> completed (snd (main (scenario_env failing_service sort_desc_stable)
     (scenario_config [] [] 20) [] [[art_a]]))"
  by (simp add: scenario_failing_run)

section \<open>Frequency bonus in the run\<close>

text \<open>
  Claim C3, on the code. The run removes the rows with a repeated title before the
  scoring step, and counts the titles after it: in every run whose date loop returns
  every count is 1, the bonus of every row is 0 and the frequency step changes nothing.
  In the run below one story is fetched from two feeds (two urls, one title, both new
  and of today): the first row is scored 5 by the service and reaches the final list
  with score 5, where the claim gives it the bonus \<open>min (2 - 1) 2 = 1\<close>.
\<close>

theorem frequency_bonus_after_dedup:
  "(today_new_articles_df e db results = Inr batch \<longrightarrow>
      frequency_bonus (ai_rank_and_classify_articles (scoring_service e) batch)
        = replicate (length (ai_rank_and_classify_articles (scoring_service e) batch)) 0 \<and>
      add_frequency_bonus (ai_rank_and_classify_articles (scoring_service e) batch)
        = ai_rank_and_classify_articles (scoring_service e) batch) \<and>
   raw_combined_df [[story_a], [story_b]] = [story_a, story_b] \<and>
   title story_a = title story_b \<and>
   snd (main (scenario_env tech5_service sort_desc_stable) (scenario_config [] [] 20) []
     [[story_a], [story_b]])
   = Completed [with_score story_a 5 ''tech'']
       \<lparr>conn = True, table = [stamp 1000000 story_a]\<rparr>"
proof -
  have "raw_combined_df [[story_a], [story_b]] = [story_a, story_b]"
    by (simp add: raw_combined_df_def story_a_def story_b_def mk_article_def)
  moreover have "title story_a = title story_b"
    by (simp add: story_a_def story_b_def mk_article_def)
  moreover have "distinct (map title (ai_rank_and_classify_articles (scoring_service e) batch))"
    if "today_new_articles_df e db results = Inr batch"
    unfolding titles_ai_rank using that by (rule distinct_titles_today_new)
  ultimately show ?thesis
    by (simp add: frequency_bonus_distinct add_frequency_bonus_distinct scenario_story_run)
qed

text \<open>The batch of that run is the first row of the story, and its bonus is 0.\<close>

theorem frequency_bonus_after_dedup_witness:
  "today_new_articles_df (scenario_env tech5_service sort_desc_stable)
      \<lparr>conn = True, table = []\<rparr> [[story_a], [story_b]] = Inr [story_a] \<and>
   ai_rank_and_classify_articles (scoring_service (scenario_env tech5_service sort_desc_stable))
      [story_a] = [with_score story_a 5 ''tech''] \<and>
   frequency_bonus (ai_rank_and_classify_articles
      (scoring_service (scenario_env tech5_service sort_desc_stable)) [story_a]) = [0]"
proof -
  let ?e = "scenario_env tech5_service sort_desc_stable"
  have tn: "today_new_articles_df ?e \<lparr>conn = True, table = []\<rparr> [[story_a], [story_b]]
      = Inr [story_a]" by (rule scenario_today_new_story)
  have cls: "ai_rank_and_classify_articles (scoring_service ?e) [story_a]
      = [with_score story_a 5 ''tech'']"
    by (simp add: ai_rank_and_classify_articles_def scenario_env_def tech5_service_def
        drop_duplicates_def result_map_def)
  from frequency_bonus_after_dedup [of ?e "\<lparr>conn = True, table = []\<rparr>" "[[story_a], [story_b]]"
      "[story_a]"] tn
  have "frequency_bonus (ai_rank_and_classify_articles (scoring_service ?e) [story_a])
      = replicate (length (ai_rank_and_classify_articles (scoring_service ?e) [story_a])) 0"
    by blast
  then have "frequency_bonus (ai_rank_and_classify_articles (scoring_service ?e) [story_a]) = [0]"
    unfolding cls by simp
  with tn cls show ?thesis by blast
qed

section \<open>Incremental filter in the run\<close>

text \<open>The sort of the scenarios keeps the promise of \<^verbatim>\<open>sort_values\<close>, and a sort that
  keeps it returns the rows it was given.\<close>

lemma sort_desc_stable_contract: "sort_contract sort_desc_stable"
proof -
  have "sorted_wrt (\<lambda>a b. importance_score b \<le> importance_score a)
          (sort_key (\<lambda>a. - importance_score a) df)" for df :: "scored list"
    using sorted_sort_key [of "\<lambda>a. - importance_score a" df]
    by (simp add: sorted_map)
  then show ?thesis
    by (simp add: sort_contract_def sort_desc_stable_def)
qed

lemma sort_contract_set: "sort_contract srt \<Longrightarrow> set (srt df) = set df"
  unfolding sort_contract_def by (metis mset_eq_setD)

lemma quota_select_subseq: "quota_select quotas T ranked = Inr sel \<Longrightarrow> subseq sel ranked"
  unfolding quota_select_def by (drule quota_walk_extends) simp

text \<open>The quota walk returns ranked candidates in the order of the ranking; the order
  that the sort gives to rows of equal score is not stated here.\<close>

lemma sorted_wrt_subseq: "subseq xs ys \<Longrightarrow> sorted_wrt P ys \<Longrightarrow> sorted_wrt P xs"
proof (induction rule: list_emb.induct)
  case (list_emb_Nil ys)
  then show ?case by simp
next
  case (list_emb_Cons xs ys y)
  then show ?case by simp
next
  case (list_emb_Cons2 x y xs ys)
  from list_emb_Cons2 have "set xs \<subseteq> set ys" by (auto dest: list_emb_set)
  with list_emb_Cons2 show ?case by auto
qed

lemma quota_select_ranked:
  assumes "sort_contract srt" and "quota_select quotas T (srt candidates) = Inr sel"
  shows "sorted_wrt (\<lambda>a b. importance_score a \<ge> importance_score b) sel \<and>
         set sel \<subseteq> set candidates"
proof -
  from assms(1) have s: "sorted_wrt (\<lambda>a b. importance_score a \<ge> importance_score b) (srt candidates)"
    by (simp add: sort_contract_def)
  from quota_select_subseq [OF assms(2)] have sub: "subseq sel (srt candidates)" .
  then have "set sel \<subseteq> set (srt candidates)" by (auto dest: list_emb_set)
  with sort_contract_set [OF assms(1), of candidates] sorted_wrt_subseq [OF sub s]
  show ?thesis by simp
qed

text \<open>The final list is made of rows of the scored batch, and the frequency step and
  the scoring step keep the urls; so what passes the incremental filter is all that
  the later steps of the run see.\<close>

lemma select_and_merge_subset:
  assumes "select_and_merge contains srt rules quotas T classified = Inr final"
    and "sort_contract srt"
  shows "set final \<subseteq> set classified"
proof -
  let ?forced = "filter (force_keep contains rules) classified"
  let ?cand = "filter (\<lambda>x. \<not> force_keep contains rules x) classified"
  from assms(1) obtain sel where sel: "quota_select quotas T (srt ?cand) = Inr sel"
    and final: "final = drop_duplicates (\<lambda>a. (url a, title a)) (?forced @ sel)"
    by (auto simp add: select_and_merge_def apply_force_keep_rules_eq split: sum.splits if_splits)
  from quota_select_subseq [OF sel] have "set sel \<subseteq> set (srt ?cand)"
    by (auto dest: list_emb_set)
  with sort_contract_set [OF assms(2), of ?cand] have "set sel \<subseteq> set classified" by auto
  with set_drop_duplicates [of "\<lambda>a. (url a, title a)" "?forced @ sel"] show ?thesis
    unfolding final by auto
qed

lemma urls_add_frequency_bonus: "map url (add_frequency_bonus df) = map url df"
proof -
  have "map url (map (\<lambda>(a, b). a\<lparr>importance_score := importance_score a + b\<rparr>) (zip xs ys))
          = map url xs" if "length ys = length xs" for xs :: "scored list" and ys :: "int list"
    using that by (induction xs ys rule: list_induct2') simp_all
  then show ?thesis
    by (simp add: add_frequency_bonus_def length_frequency_bonus)
qed

lemma filtered_fresh:
  assumes "date_loop e [] (new_articles_df existing raw) = Inr filtered"
  shows "set (map url filtered) \<inter> existing = {}"
  using date_loop_set [OF assms] by (auto simp add: new_articles_df_def)

lemma today_new_fresh:
  assumes "today_new_articles_df e db results = Inr batch"
  shows "set (map url batch) \<inter> get_existing_urls db = {}"
proof -
  from assms obtain filtered where
    dl: "date_loop e [] (new_articles_df (get_existing_urls db) (raw_combined_df results)) = Inr filtered"
    and b: "batch = drop_duplicates title filtered"
    by (rule today_new_InrD)
  from filtered_fresh [OF dl] set_drop_duplicates [of title filtered] show ?thesis
    unfolding b by auto
qed

lemma final_list_fresh:
  assumes c: "snd (main e cfg stored results) = Completed final db'"
    and s: "sort_contract (sort_values e)"
  shows "set (map url final) \<inter> set (map url stored) = {}"
proof -
  let ?db = "\<lparr>conn = True, table = stored\<rparr>"
  show ?thesis
  proof (cases "today_new_articles_df e ?db results")
    case (Inl err)
    from main_date_loop_raises [OF Inl, of cfg] c show ?thesis by simp
  next
    case (Inr batch)
    show ?thesis
    proof (cases "batch = []")
      case True
      with Inr main_before_scoring [of e stored results cfg] c show ?thesis by auto
    next
      case False
      let ?cls = "ai_rank_and_classify_articles (scoring_service e) batch"
      from c have sel: "select_and_merge (str_contains e) (sort_values e) (force_keep_rules cfg)
          (category_quotas cfg) (selection_total_limit cfg) (add_frequency_bonus ?cls) = Inr final"
        unfolding snd_main_after_filter [OF Inr False]
        by (auto split: if_splits sum.splits)
      from select_and_merge_subset [OF sel s]
      have "set (map url final) \<subseteq> set (map url (add_frequency_bonus ?cls))" by auto
      also have "\<dots> = set (map url batch)"
        by (simp only: urls_add_frequency_bonus urls_ai_rank)
      finally show ?thesis
        using today_new_fresh [OF Inr] by (auto simp add: get_existing_urls_def)
    qed
  qed
qed

lemma later_exports_fresh:
  assumes "fst (main e cfg stored results) = x # later" and "y \<in> set later"
    and "sort_contract (sort_values e) \<or> \<not> final_export y"
  shows "set (export_urls y) \<inter> set (map url stored) = {}"
proof -
  let ?db = "\<lparr>conn = True, table = stored\<rparr>"
  let ?new = "new_articles_df (set (map url stored)) (raw_combined_df results)"
  show ?thesis
  proof (cases "date_loop e [] ?new")
    case (Inl err)
    then have "today_new_articles_df e ?db results = Inl err"
      by (simp add: today_new_articles_df_def get_existing_urls_def)
    from main_date_loop_raises [OF this, of cfg] assms(1,2) show ?thesis by simp
  next
    case (Inr filtered)
    show ?thesis
    proof (cases "filtered = []")
      case True
      with Inr assms(1,2) show ?thesis
        by (auto simp add: main_def Let_def get_existing_urls_def save_dataframe_to_files_def
            split: if_splits)
    next
      case False
      from filtered_fresh [OF Inr] have ff: "set (map url filtered) \<inter> set (map url stored) = {}" .
      let ?cls = "ai_rank_and_classify_articles (scoring_service e) (drop_duplicates title filtered)"
      show ?thesis
      proof (cases "list_all (\<lambda>a. category a = unknown) ?cls")
        case True
        with assms(1,2) ff show ?thesis
          unfolding main_after_filter [OF Inr False] by auto
      next
        case ok: False
        show ?thesis
        proof (cases "select_and_merge (str_contains e) (sort_values e) (force_keep_rules cfg)
            (category_quotas cfg) (selection_total_limit cfg) (add_frequency_bonus ?cls)")
          case (Inl err)
          with ok assms(1,2) ff show ?thesis
            unfolding main_after_filter [OF Inr False] by auto
        next
          case sel: (Inr final)
          have m: "main e cfg stored results =
              ([Raw_articles (raw_combined_df results), Raw_articles filtered]
                 @ save_dataframe_to_files Final_articles_with_content final @ export_to_txt final,
               Completed final (retention cfg e
                 (write_new_articles ?db (now e) (drop_duplicates title filtered))))"
            unfolding main_after_filter [OF Inr False] using ok sel by simp
          then have c: "snd (main e cfg stored results) = Completed final (retention cfg e
                 (write_new_articles ?db (now e) (drop_duplicates title filtered)))" by simp
          from m assms(1,2) have "y = Raw_articles filtered \<or>
              y = Final_articles_with_content final \<or> y = Txt final"
            by (auto simp add: save_dataframe_to_files_def export_to_txt_def split: if_splits)
          then show ?thesis
          proof (elim disjE)
            assume "y = Raw_articles filtered"
            with ff show ?thesis by simp
          next
            assume y: "y = Final_articles_with_content final"
            with assms(3) have "sort_contract (sort_values e)" by simp
            from final_list_fresh [OF c this] y show ?thesis by simp
          next
            assume y: "y = Txt final"
            with assms(3) have "sort_contract (sort_values e)" by simp
            from final_list_fresh [OF c this] y show ?thesis by simp
          qed
        qed
      qed
    qed
  qed
qed

text \<open>
  Claim C4, as the code has it. For every state of the archive and every fetched
  batch, the rows that pass the incremental filter are the rows of the batch whose url
  is not in the set that \<^verbatim>\<open>get_existing_urls\<close> returns; when every url of the batch is
  in that set nothing passes, and the run exports the raw batch and ends at the check
  for new articles (after the retention step), before any row is parsed, scored or
  written. The first export of a run that fetched something is the raw batch, written
  before the filter: it holds the archived articles too. After it the archived
  articles are gone: no url of the archive is in an export that follows (for the
  exports of the final list, when the sort returns the rows it was given), in the
  same-day batch that is scored and written, or in the final list of a completed run.
\<close>

theorem incremental_filter_drops_existing:
  "(\<forall>a. a \<in> set (new_articles_df (get_existing_urls db) raw) \<longleftrightarrow>
         a \<in> set raw \<and> url a \<notin> get_existing_urls db) \<and>
   (set (map url raw) \<subseteq> get_existing_urls db \<longrightarrow>
      new_articles_df (get_existing_urls db) raw = []) \<and>
   (filter (\<lambda>r. r \<noteq> []) results \<noteq> [] \<and>
    set (map url (raw_combined_df results)) \<subseteq> set (map url stored) \<longrightarrow>
      main e cfg stored results =
        ([Raw_articles (raw_combined_df results)],
         NoNewArticles (retention cfg e \<lparr>conn = True, table = stored\<rparr>))) \<and>
   (filter (\<lambda>r. r \<noteq> []) results \<noteq> [] \<longrightarrow>
      (\<exists>later. fst (main e cfg stored results) = Raw_articles (raw_combined_df results) # later \<and>
         (\<forall>y \<in> set later. sort_contract (sort_values e) \<or> \<not> final_export y \<longrightarrow>
             set (export_urls y) \<inter> set (map url stored) = {}))) \<and>
   (today_new_articles_df e \<lparr>conn = True, table = stored\<rparr> results = Inr batch \<longrightarrow>
      set (map url batch) \<inter> set (map url stored) = {}) \<and>
   (sort_contract (sort_values e) \<and> snd (main e cfg stored results) = Completed final db' \<longrightarrow>
      set (map url final) \<inter> set (map url stored) = {})"
proof (intro conjI impI allI)
  fix a show "a \<in> set (new_articles_df (get_existing_urls db) raw) \<longleftrightarrow>
         a \<in> set raw \<and> url a \<notin> get_existing_urls db"
    by (simp add: new_articles_df_def)
next
  assume "set (map url raw) \<subseteq> get_existing_urls db"
  then show "new_articles_df (get_existing_urls db) raw = []"
    by (auto simp add: new_articles_df_def filter_empty_conv)
next
  assume a: "filter (\<lambda>r. r \<noteq> []) results \<noteq> [] \<and>
    set (map url (raw_combined_df results)) \<subseteq> set (map url stored)"
  then have "new_articles_df (set (map url stored)) (raw_combined_df results) = []"
    by (auto simp add: new_articles_df_def filter_empty_conv)
  moreover from a have "raw_combined_df results \<noteq> []"
    by (auto simp add: raw_combined_df_def filter_empty_conv)
  ultimately show "main e cfg stored results =
        ([Raw_articles (raw_combined_df results)],
         NoNewArticles (retention cfg e \<lparr>conn = True, table = stored\<rparr>))"
    using a by (simp add: main_def Let_def get_existing_urls_def save_dataframe_to_files_def)
next
  assume "filter (\<lambda>r. r \<noteq> []) results \<noteq> []"
  from raw_export_first [OF this, of e cfg stored] obtain later where
    l: "fst (main e cfg stored results) = Raw_articles (raw_combined_df results) # later" by blast
  have "\<forall>y \<in> set later. sort_contract (sort_values e) \<or> \<not> final_export y \<longrightarrow>
             set (export_urls y) \<inter> set (map url stored) = {}"
    using later_exports_fresh [OF l] by blast
  with l show "\<exists>later. fst (main e cfg stored results) = Raw_articles (raw_combined_df results) # later \<and>
         (\<forall>y \<in> set later. sort_contract (sort_values e) \<or> \<not> final_export y \<longrightarrow>
             set (export_urls y) \<inter> set (map url stored) = {})" by blast
next
  assume "today_new_articles_df e \<lparr>conn = True, table = stored\<rparr> results = Inr batch"
  from today_new_fresh [OF this] show "set (map url batch) \<inter> set (map url stored) = {}"
    by (simp add: get_existing_urls_def)
next
  assume "sort_contract (sort_values e) \<and> snd (main e cfg stored results) = Completed final db'"
  then show "set (map url final) \<inter> set (map url stored) = {}"
    using final_list_fresh by blast
qed

text \<open>Runs against an archive that is not empty: one article of two is archived; and
  the run that follows the run on one story from two feeds.\<close>

lemma scenario_today_new_mixed:
  "today_new_articles_df (scenario_env service srt) \<lparr>conn = True, table = [stamp 5 art_a]\<rparr>
     [[art_a], [art_b]] = Inr [art_b]"
  by (simp add: today_new_articles_df_def raw_combined_df_def get_existing_urls_def
      new_articles_df_def scenario_env_def art_a_def art_b_def mk_article_def
      drop_duplicates_def)

lemma scenario_today_new_story_next:
  "today_new_articles_df (scenario_env service srt)
     \<lparr>conn = True, table = [stamp 1000000 story_a]\<rparr> [[story_a], [story_b]] = Inr [story_b]"
  by (simp add: today_new_articles_df_def raw_combined_df_def get_existing_urls_def
      new_articles_df_def scenario_env_def story_a_def story_b_def mk_article_def
      drop_duplicates_def)

lemma scenario_single_run:
  assumes tn: "today_new_articles_df (scenario_env tech5_service sort_desc_stable)
      \<lparr>conn = True, table = stored\<rparr> results = Inr [a]"
  shows "snd (main (scenario_env tech5_service sort_desc_stable) (scenario_config [] [] 20)
           stored results)
         = Completed [with_score a 5 ''tech'']
             \<lparr>conn = True, table = stored @ [stamp 1000000 a]\<rparr>"
proof -
  let ?e = "scenario_env tech5_service sort_desc_stable"
  let ?db = "\<lparr>conn = True, table = stored\<rparr>"
  have cls: "ai_rank_and_classify_articles (scoring_service ?e) [a] = [with_score a 5 ''tech'']"
    by (simp add: ai_rank_and_classify_articles_def scenario_env_def tech5_service_def
        drop_duplicates_def result_map_def)
  have bonus: "add_frequency_bonus [with_score a 5 ''tech''] = [with_score a 5 ''tech'']"
    by (rule add_frequency_bonus_distinct) simp
  have sel: "select_and_merge (str_contains ?e) (sort_values ?e)
      (force_keep_rules (scenario_config [] [] 20)) (category_quotas (scenario_config [] [] 20))
      (selection_total_limit (scenario_config [] [] 20)) [with_score a 5 ''tech'']
      = Inr [with_score a 5 ''tech'']"
    by (simp add: select_and_merge_def apply_force_keep_rules_eq force_keep_def scenario_env_def
        scenario_config_def sort_desc_stable_def quota_select_def drop_duplicates_def
        with_score_def)
  from today_new_fresh [OF tn] have "url a \<notin> set (map url stored)"
    by (simp add: get_existing_urls_def)
  then have wr: "retention (scenario_config [] [] 20) ?e (write_new_articles ?db (now ?e) [a])
      = \<lparr>conn = True, table = stored @ [stamp 1000000 a]\<rparr>"
    by (simp add: retention_def scenario_config_def write_new_articles_eq scenario_env_def)
  have unk: "category (with_score a 5 ''tech'') \<noteq> unknown"
    by (simp add: with_score_def tech_not_unknown)
  show ?thesis
    by (simp add: snd_main_after_filter [OF tn] cls bonus sel wr unk)
qed

text \<open>The archive holds the url \<open>http://a\<close> and the feeds give \<open>http://a\<close> and
  \<open>http://b\<close>: the raw export holds both articles, the batch, the later exports and
  the final list hold the second only. And a second run on an archive that holds both
  urls: nothing is new, and the run ends at the check after the raw export.\<close>

theorem incremental_filter_witness:
  "sort_contract (sort_values (scenario_env tech5_service sort_desc_stable)) \<and>
   filter (\<lambda>r. r \<noteq> []) [[art_a], [art_b]] \<noteq> [] \<and>
   today_new_articles_df (scenario_env tech5_service sort_desc_stable)
     \<lparr>conn = True, table = [stamp 5 art_a]\<rparr> [[art_a], [art_b]] = Inr [art_b] \<and>
   snd (main (scenario_env tech5_service sort_desc_stable) (scenario_config [] [] 20)
          [stamp 5 art_a] [[art_a], [art_b]])
     = Completed [with_score art_b 5 ''tech'']
         \<lparr>conn = True, table = [stamp 5 art_a, stamp 1000000 art_b]\<rparr> \<and>
   set (map url [art_b]) \<inter> set (map url [stamp 5 art_a]) = {} \<and>
   set (map url [with_score art_b 5 ''tech'']) \<inter> set (map url [stamp 5 art_a]) = {} \<and>
   hd (fst (main (scenario_env tech5_service sort_desc_stable) (scenario_config [] [] 20)
          [stamp 5 art_a] [[art_a], [art_b]])) = Raw_articles [art_a, art_b] \<and>
   list_all (\<lambda>y. set (export_urls y) \<inter> set (map url [stamp 5 art_a]) = {})
     (tl (fst (main (scenario_env tech5_service sort_desc_stable) (scenario_config [] [] 20)
          [stamp 5 art_a] [[art_a], [art_b]]))) \<and>
   set (map url (raw_combined_df [[art_a], [art_b]]))
     \<subseteq> set (map url [stamp 5 art_a, stamp 5 art_b]) \<and>
   new_articles_df (get_existing_urls \<lparr>conn = True, table = [stamp 5 art_a, stamp 5 art_b]\<rparr>)
     [art_a, art_b] = [] \<and>
   main (scenario_env tech5_service sort_desc_stable) (scenario_config [] [] 20)
     [stamp 5 art_a, stamp 5 art_b] [[art_a], [art_b]]
     = ([Raw_articles [art_a, art_b]],
        NoNewArticles \<lparr>conn = True, table = [stamp 5 art_a, stamp 5 art_b]\<rparr>)"
proof -
  let ?e = "scenario_env tech5_service sort_desc_stable"
  let ?cfg = "scenario_config [] [] 20"
  let ?r = "[[art_a], [art_b]]"
  let ?one = "[stamp 5 art_a]"
  let ?both = "[stamp 5 art_a, stamp 5 art_b]"
  let ?final = "[with_score art_b 5 ''tech'']"
  let ?db' = "\<lparr>conn = True, table = [stamp 5 art_a, stamp 1000000 art_b]\<rparr>"
  have s: "sort_contract (sort_values ?e)"
    by (simp add: scenario_env_def sort_desc_stable_contract)
  have ne: "filter (\<lambda>r. r \<noteq> []) ?r \<noteq> []" by simp
  have raw: "raw_combined_df ?r = [art_a, art_b]" by (simp add: raw_combined_df_def)
  have tn: "today_new_articles_df ?e \<lparr>conn = True, table = ?one\<rparr> ?r = Inr [art_b]"
    by (rule scenario_today_new_mixed)
  have run: "snd (main ?e ?cfg ?one ?r) = Completed ?final ?db'"
    using scenario_single_run [OF tn] by simp
  have sub: "set (map url (raw_combined_df ?r)) \<subseteq> set (map url ?both)"
    by (simp add: raw)
  have sub': "set (map url [art_a, art_b])
      \<subseteq> get_existing_urls \<lparr>conn = True, table = ?both\<rparr>"
    by (simp add: get_existing_urls_def)
  have ret: "retention ?cfg ?e \<lparr>conn = True, table = ?both\<rparr> = \<lparr>conn = True, table = ?both\<rparr>"
    by (simp add: retention_def scenario_config_def)
  note mixed = incremental_filter_drops_existing
    [of "\<lparr>conn = True, table = ?one\<rparr>" "[art_a, art_b]" ?r ?one ?e ?cfg "[art_b]" ?final ?db']
  note archived = incremental_filter_drops_existing
    [of "\<lparr>conn = True, table = ?both\<rparr>" "[art_a, art_b]" ?r ?both ?e ?cfg "[art_b]" ?final ?db']
  from mixed tn have b: "set (map url [art_b]) \<inter> set (map url ?one) = {}" by blast
  from mixed s run have f: "set (map url ?final) \<inter> set (map url ?one) = {}" by blast
  from mixed ne s obtain later where
    l: "fst (main ?e ?cfg ?one ?r) = Raw_articles (raw_combined_df ?r) # later"
    and fr: "\<forall>y \<in> set later. set (export_urls y) \<inter> set (map url ?one) = {}"
    by blast
  from l have h: "hd (fst (main ?e ?cfg ?one ?r)) = Raw_articles [art_a, art_b]"
    by (simp add: raw)
  from l fr have t: "list_all (\<lambda>y. set (export_urls y) \<inter> set (map url ?one) = {})
     (tl (fst (main ?e ?cfg ?one ?r)))"
    by (simp add: list_all_iff)
  from archived sub' have n: "new_articles_df (get_existing_urls \<lparr>conn = True, table = ?both\<rparr>)
     [art_a, art_b] = []" by blast
  from archived ne sub have "main ?e ?cfg ?both ?r =
      ([Raw_articles (raw_combined_df ?r)], NoNewArticles (retention ?cfg ?e \<lparr>conn = True, table = ?both\<rparr>))"
    by blast
  then have m: "main ?e ?cfg ?both ?r
     = ([Raw_articles [art_a, art_b]], NoNewArticles \<lparr>conn = True, table = ?both\<rparr>)"
    by (simp only: raw ret)
  from s ne tn run b f h t sub n m show ?thesis by blast
qed

text \<open>Claim C4 as the specification states it (an archived article is dropped before
  any further processing) fails on both of these runs: the url of the first article is
  in the archive, and the article is in the raw export of the run; and the run whose
  urls are all in the archive exports them all.\<close>

theorem archived_articles_exported_counterexample:
  "url art_a \<in> get_existing_urls \<lparr>conn = True, table = [stamp 5 art_a]\<rparr> \<and>
   hd (fst (main (scenario_env tech5_service sort_desc_stable) (scenario_config [] [] 20)
          [stamp 5 art_a] [[art_a], [art_b]])) = Raw_articles [art_a, art_b] \<and>
   url art_a \<in> set (export_urls (Raw_articles [art_a, art_b])) \<and>
   set (map url [art_a, art_b])
     \<subseteq> get_existing_urls \<lparr>conn = True, table = [stamp 5 art_a, stamp 5 art_b]\<rparr> \<and>
   fst (main (scenario_env tech5_service sort_desc_stable) (scenario_config [] [] 20)
          [stamp 5 art_a, stamp 5 art_b] [[art_a], [art_b]]) = [Raw_articles [art_a, art_b]]"
proof -
  have "filter (\<lambda>r. r \<noteq> []) [[art_a], [art_b]] \<noteq> []" by simp
  from raw_export_first [OF this] obtain later where
    "fst (main (scenario_env tech5_service sort_desc_stable) (scenario_config [] [] 20)
          [stamp 5 art_a] [[art_a], [art_b]])
       = Raw_articles (raw_combined_df [[art_a], [art_b]]) # later" by blast
  then have first: "hd (fst (main (scenario_env tech5_service sort_desc_stable)
          (scenario_config [] [] 20) [stamp 5 art_a] [[art_a], [art_b]]))
       = Raw_articles [art_a, art_b]"
    by (simp add: raw_combined_df_def)
  have second: "fst (main (scenario_env tech5_service sort_desc_stable) (scenario_config [] [] 20)
          [stamp 5 art_a, stamp 5 art_b] [[art_a], [art_b]]) = [Raw_articles [art_a, art_b]]"
    by (simp add: main_def Let_def raw_combined_df_def get_existing_urls_def new_articles_df_def
        save_dataframe_to_files_def)
  from first second show ?thesis
    by (simp add: get_existing_urls_def)
qed

section \<open>What a run archives\<close>

text \<open>A run that fetches a new article whose publish time lies outside the years of
  \<^verbatim>\<open>datetime\<close> raises in the date loop: it has exported the raw batch, and the
  archive is as it was.\<close>

lemma scenario_overflow_run:
  "main (scenario_env tech5_service sort_desc_stable) (scenario_config [] [] 20) stored
     [[mk_article ''http://old'' ''Old'' ''feed'' ''0001-01-01T00:00:00+14:00'']]
   = (if ''http://old'' \<in> set (map url stored)
      then ([Raw_articles [mk_article ''http://old'' ''Old'' ''feed'' ''0001-01-01T00:00:00+14:00'']],
            NoNewArticles \<lparr>conn = True, table = stored\<rparr>)
      else ([Raw_articles [mk_article ''http://old'' ''Old'' ''feed'' ''0001-01-01T00:00:00+14:00'']],
            Crashed OverflowError)) \<and>
   store_after stored (Crashed OverflowError) = stored"
  by (simp add: main_def Let_def raw_combined_df_def get_existing_urls_def new_articles_df_def
      save_dataframe_to_files_def scenario_env_def scenario_config_def retention_def
      mk_article_def)

text \<open>The retention step deletes rows and adds none, and it keeps the rows that the
  run has just written.\<close>

lemma table_retention_subset: "set (table (retention cfg e db)) \<subseteq> set (table db)"
  by (auto simp add: retention_def clean_old_articles_def Let_def)

lemma table_retention_append:
  "table (retention cfg e (db\<lparr>table := tbl @ map (stamp (now e)) xs\<rparr>)) =
     table (retention cfg e (db\<lparr>table := tbl\<rparr>)) @ map (stamp (now e)) xs"
proof -
  have "filter (\<lambda>r. \<not> insert_timestamp r < now e - d * 86400) (map (stamp (now e)) xs)
          = map (stamp (now e)) xs" if "0 < d" for d
    using that by (simp add: filter_id_conv)
  then show ?thesis
    by (simp add: retention_def clean_old_articles_def Let_def)
qed

lemma persisted_urls_write:
  assumes fresh: "set (map url df) \<inter> set (map url stored) = {}"
  shows "set (map url (table (retention cfg e
            (write_new_articles \<lparr>conn = True, table = stored\<rparr> (now e) df)))) - set (map url stored)
         = (if distinct (map url df) then set (map url df) else {})"
proof (cases "distinct (map url df)")
  case True
  let ?db = "\<lparr>conn = True, table = stored\<rparr>"
  have w: "write_new_articles ?db (now e) df = ?db\<lparr>table := stored @ map (stamp (now e)) df\<rparr>"
    using True fresh by (simp add: write_new_articles_eq)
  have old: "set (map url (table (retention cfg e (?db\<lparr>table := stored\<rparr>)))) \<subseteq> set (map url stored)"
    using table_retention_subset [of cfg e "?db\<lparr>table := stored\<rparr>"] by auto
  have "set (map url (table (retention cfg e (write_new_articles ?db (now e) df))))
          = set (map url (table (retention cfg e (?db\<lparr>table := stored\<rparr>)))) \<union> set (map url df)"
    unfolding w table_retention_append by (simp add: comp_def)
  with old fresh True show ?thesis by auto
next
  case False
  let ?db = "\<lparr>conn = True, table = stored\<rparr>"
  have w: "write_new_articles ?db (now e) df = ?db"
    using False by (simp add: write_new_articles_eq)
  show ?thesis
    unfolding w using table_retention_subset [of cfg e ?db] False by auto
qed

lemma persisted_urls_run:
  "persisted_urls stored (snd (main e cfg stored results)) =
     (case today_new_articles_df e \<lparr>conn = True, table = stored\<rparr> results of
        Inl err \<Rightarrow> {}
      | Inr batch \<Rightarrow>
          if completed (snd (main e cfg stored results)) \<and> distinct (map url batch)
          then set (map url batch) else {})"
proof -
  let ?db = "\<lparr>conn = True, table = stored\<rparr>"
  show ?thesis
  proof (cases "today_new_articles_df e ?db results")
    case (Inl err)
    from main_date_loop_raises [OF Inl, of cfg] Inl show ?thesis
      by (simp add: persisted_urls_def)
  next
    case (Inr batch)
    from today_new_fresh [OF Inr]
    have fresh: "set (map url batch) \<inter> set (map url stored) = {}"
      by (simp add: get_existing_urls_def)
    show ?thesis
    proof (cases "batch = []")
      case True
      with Inr main_before_scoring [of e stored results cfg] table_retention_subset [of cfg e ?db]
      show ?thesis by (auto simp add: persisted_urls_def)
    next
      case False
      show ?thesis
        unfolding snd_main_after_filter [OF Inr False] Inr
        using persisted_urls_write [OF fresh, of cfg e]
        by (auto simp add: persisted_urls_def split: sum.splits)
    qed
  qed
qed

text \<open>
  Claim C9, as the code has it. When the date loop of a run returns the batch, the run
  is completed and the urls of the batch are pairwise distinct, the urls that the run
  adds to the archive are the urls of the same-day, title-deduplicated batch of new
  articles. A run that is not completed (it ends at one of the checks, or it raises)
  adds no url, and neither does a run whose batch repeats a url (the append fails as a
  whole). A url that is neither in the archive nor in the batch is not in the archive
  after the run: a new url dropped by the date loop or by the title deduplication is
  not archived. So when the next run fetches an article with such a url, the article
  passes the incremental filter of the next run: it is new again. Whether the next run
  drops it again is decided by the date loop and the title deduplication of that run.
\<close>

theorem archived_urls:
  "(today_new_articles_df e \<lparr>conn = True, table = stored\<rparr> results = Inr batch \<and>
    completed (snd (main e cfg stored results)) \<and> distinct (map url batch) \<longrightarrow>
      persisted_urls stored (snd (main e cfg stored results)) = set (map url batch)) \<and>
   (\<not> completed (snd (main e cfg stored results)) \<longrightarrow>
      persisted_urls stored (snd (main e cfg stored results)) = {}) \<and>
   (today_new_articles_df e \<lparr>conn = True, table = stored\<rparr> results = Inr batch \<and>
    \<not> distinct (map url batch) \<longrightarrow>
      persisted_urls stored (snd (main e cfg stored results)) = {}) \<and>
   (\<forall>u. today_new_articles_df e \<lparr>conn = True, table = stored\<rparr> results = Inr batch \<and>
        u \<notin> set (map url stored) \<and> u \<notin> set (map url batch) \<longrightarrow>
        u \<notin> set (map url (store_after stored (snd (main e cfg stored results))))) \<and>
   (\<forall>a. today_new_articles_df e \<lparr>conn = True, table = stored\<rparr> results = Inr batch \<and>
        url a \<notin> set (map url stored) \<and> url a \<notin> set (map url batch) \<and>
        a \<in> set (raw_combined_df next_results) \<longrightarrow>
        a \<in> set (new_articles_df
                  (get_existing_urls
                     \<lparr>conn = True, table = store_after stored (snd (main e cfg stored results))\<rparr>)
                  (raw_combined_df next_results)))"
proof -
  let ?db = "\<lparr>conn = True, table = stored\<rparr>"
  let ?out = "snd (main e cfg stored results)"
  note eq = persisted_urls_run [of stored e cfg results]
  have kept: "u \<notin> set (map url (store_after stored ?out))"
    if "today_new_articles_df e ?db results = Inr batch"
      "u \<notin> set (map url stored)" "u \<notin> set (map url batch)" for u
  proof
    assume "u \<in> set (map url (store_after stored ?out))"
    with that(2) have "u \<in> persisted_urls stored ?out"
      by (simp add: persisted_urls_def)
    with eq that(1,3) show False by (simp split: if_splits)
  qed
  have c1: "today_new_articles_df e ?db results = Inr batch \<and>
    completed ?out \<and> distinct (map url batch) \<longrightarrow>
      persisted_urls stored ?out = set (map url batch)"
    using eq by simp
  have c2: "\<not> completed ?out \<longrightarrow> persisted_urls stored ?out = {}"
    using eq by (simp split: sum.splits)
  have c3: "today_new_articles_df e ?db results = Inr batch \<and> \<not> distinct (map url batch) \<longrightarrow>
      persisted_urls stored ?out = {}"
    using eq by simp
  have c4: "\<forall>u. today_new_articles_df e ?db results = Inr batch \<and>
        u \<notin> set (map url stored) \<and> u \<notin> set (map url batch) \<longrightarrow>
        u \<notin> set (map url (store_after stored ?out))"
    using kept by blast
  have c5: "\<forall>a. today_new_articles_df e ?db results = Inr batch \<and>
        url a \<notin> set (map url stored) \<and> url a \<notin> set (map url batch) \<and>
        a \<in> set (raw_combined_df next_results) \<longrightarrow>
        a \<in> set (new_articles_df
                  (get_existing_urls \<lparr>conn = True, table = store_after stored ?out\<rparr>)
                  (raw_combined_df next_results))"
    using kept by (simp add: new_articles_df_def get_existing_urls_def)
  from c1 c2 c3 c4 c5 show ?thesis by (intro conjI)
qed

text \<open>The run on one story from two feeds: it is completed, the batch is the first
  row, its url is archived and the url of the second row is not, and the second row
  passes the incremental filter of a run that follows. The run with a service that
  raises is not completed, the run on two articles with one url repeats a url: they add
  nothing.\<close>

theorem archived_urls_witness:
  "today_new_articles_df (scenario_env tech5_service sort_desc_stable)
      \<lparr>conn = True, table = []\<rparr> [[story_a], [story_b]] = Inr [story_a] \<and>
   completed (snd (main (scenario_env tech5_service sort_desc_stable) (scenario_config [] [] 20) []
      [[story_a], [story_b]])) \<and>
   distinct (map url [story_a]) \<and>
   persisted_urls [] (snd (main (scenario_env tech5_service sort_desc_stable)
      (scenario_config [] [] 20) [] [[story_a], [story_b]])) = {''http://a/story''} \<and>
   url story_b \<notin> set (map url ([] :: archive_entry list)) \<and>
   url story_b \<notin> set (map url [story_a]) \<and>
   url story_b \<notin> set (map url (store_after [] (snd (main (scenario_env tech5_service sort_desc_stable)
      (scenario_config [] [] 20) [] [[story_a], [story_b]])))) \<and>
   story_b \<in> set (raw_combined_df [[story_a], [story_b]]) \<and>
   story_b \<in> set (new_articles_df
      (get_existing_urls \<lparr>conn = True, table = store_after []
         (snd (main (scenario_env tech5_service sort_desc_stable)
            (scenario_config [] [] 20) [] [[story_a], [story_b]]))\<rparr>)
      (raw_combined_df [[story_a], [story_b]])) \<and>
   today_new_articles_df (scenario_env failing_service sort_desc_stable)
      \<lparr>conn = True, table = []\<rparr> [[art_a]] = Inr [art_a] \<and>
   \<not> completed (snd (main (scenario_env failing_service sort_desc_stable)
      (scenario_config [] [] 20) [] [[art_a]])) \<and>
   persisted_urls [] (snd (main (scenario_env failing_service sort_desc_stable)
      (scenario_config [] [] 20) [] [[art_a]])) = {} \<and>
   today_new_articles_df (scenario_env tech5_service sort_desc_stable)
      \<lparr>conn = True, table = []\<rparr> [[part_one, part_two]] = Inr [part_one, part_two] \<and>
   \<not> distinct (map url [part_one, part_two]) \<and>
   persisted_urls [] (snd (main (scenario_env tech5_service sort_desc_stable)
      (scenario_config [] [] 20) [] [[part_one, part_two]])) = {}"
proof -
  let ?e = "scenario_env tech5_service sort_desc_stable"
  let ?f = "scenario_env failing_service sort_desc_stable"
  let ?cfg = "scenario_config [] [] 20"
  let ?r = "[[story_a], [story_b]]"
  let ?d = "[[part_one, part_two]]"
  let ?none = "[] :: archive_entry list"
  have tn: "today_new_articles_df ?e \<lparr>conn = True, table = []\<rparr> ?r = Inr [story_a]"
    by (rule scenario_today_new_story)
  have c: "completed (snd (main ?e ?cfg [] ?r))" by (simp add: scenario_story_run)
  have d: "distinct (map url [story_a])" by simp
  have u1: "url story_b \<notin> set (map url ?none)" by simp
  have u2: "url story_b \<notin> set (map url [story_a])"
    by (simp add: story_a_def story_b_def mk_article_def)
  have m: "story_b \<in> set (raw_combined_df ?r)" by (simp add: raw_combined_df_def)
  note story = archived_urls [of ?e "[]" ?r "[story_a]" ?cfg ?r]
  from story tn c d have "persisted_urls [] (snd (main ?e ?cfg [] ?r)) = set (map url [story_a])"
    by blast
  then have p: "persisted_urls [] (snd (main ?e ?cfg [] ?r)) = {''http://a/story''}"
    by (simp add: story_a_def mk_article_def)
  from story tn u1 u2
  have k: "url story_b \<notin> set (map url (store_after [] (snd (main ?e ?cfg [] ?r))))" by blast
  from story tn u1 u2 m
  have n: "story_b \<in> set (new_articles_df
      (get_existing_urls \<lparr>conn = True, table = store_after [] (snd (main ?e ?cfg [] ?r))\<rparr>)
      (raw_combined_df ?r))" by blast
  have tf: "today_new_articles_df ?f \<lparr>conn = True, table = []\<rparr> [[art_a]] = Inr [art_a]"
    by (rule scenario_today_new_a)
  have nc: "\<not> completed (snd (main ?f ?cfg [] [[art_a]]))" by (simp add: scenario_failing_run)
  from archived_urls [of ?f "[]" "[[art_a]]" "[art_a]" ?cfg "[[art_a]]"] nc
  have pf: "persisted_urls [] (snd (main ?f ?cfg [] [[art_a]])) = {}" by blast
  have td: "today_new_articles_df ?e \<lparr>conn = True, table = []\<rparr> ?d = Inr [part_one, part_two]"
    by (rule scenario_today_new_digest)
  have nd: "\<not> distinct (map url [part_one, part_two])"
    by (simp add: part_one_def part_two_def mk_article_def)
  from archived_urls [of ?e "[]" ?d "[part_one, part_two]" ?cfg ?d] td nd
  have pd: "persisted_urls [] (snd (main ?e ?cfg [] ?d)) = {}" by blast
  from tn c d p u1 u2 k m n tf nc pf td nd pd show ?thesis by blast
qed

text \<open>Claim C9 as the specification states it fails on two runs. The run that ends at
  the scoring check has the batch \<open>[art_a]\<close> and adds no url. And the second article of
  the story, dropped by the title deduplication of the first run, is not filtered again
  by the run that follows: the first article is archived by then, so the second is the
  only new row of its title, and it is scored, selected and archived.\<close>

theorem archived_urls_counterexample:
  "persisted_urls [] (snd (main (scenario_env failing_service sort_desc_stable)
       (scenario_config [] [] 20) [] [[art_a]])) = {} \<and>
   today_new_articles_df (scenario_env failing_service sort_desc_stable)
       \<lparr>conn = True, table = []\<rparr> [[art_a]] = Inr [art_a] \<and>
   set (map url [art_a]) = {''http://a''} \<and>
   snd (main (scenario_env tech5_service sort_desc_stable) (scenario_config [] [] 20) []
       [[story_a], [story_b]])
     = Completed [with_score story_a 5 ''tech'']
         \<lparr>conn = True, table = [stamp 1000000 story_a]\<rparr> \<and>
   today_new_articles_df (scenario_env tech5_service sort_desc_stable)
       \<lparr>conn = True, table = [stamp 1000000 story_a]\<rparr> [[story_a], [story_b]] = Inr [story_b] \<and>
   snd (main (scenario_env tech5_service sort_desc_stable) (scenario_config [] [] 20)
       [stamp 1000000 story_a] [[story_a], [story_b]])
     = Completed [with_score story_b 5 ''tech'']
         \<lparr>conn = True, table = [stamp 1000000 story_a, stamp 1000000 story_b]\<rparr> \<and>
   persisted_urls [stamp 1000000 story_a]
       (snd (main (scenario_env tech5_service sort_desc_stable) (scenario_config [] [] 20)
          [stamp 1000000 story_a] [[story_a], [story_b]])) = {''http://b/story''}"
proof -
  have next_run: "snd (main (scenario_env tech5_service sort_desc_stable) (scenario_config [] [] 20)
       [stamp 1000000 story_a] [[story_a], [story_b]])
     = Completed [with_score story_b 5 ''tech'']
         \<lparr>conn = True, table = [stamp 1000000 story_a, stamp 1000000 story_b]\<rparr>"
    using scenario_single_run [OF scenario_today_new_story_next] by simp
  have p_next: "persisted_urls [stamp 1000000 story_a]
       (Completed [with_score story_b 5 ''tech'']
         \<lparr>conn = True, table = [stamp 1000000 story_a, stamp 1000000 story_b]\<rparr>)
       = {''http://b/story''}"
    by (simp add: persisted_urls_def story_a_def story_b_def mk_article_def)
  have p_fail: "persisted_urls [] (snd (main (scenario_env failing_service sort_desc_stable)
       (scenario_config [] [] 20) [] [[art_a]])) = {}"
    unfolding scenario_failing_run by (simp add: persisted_urls_def)
  have u: "set (map url [art_a]) = {''http://a''}"
    by (simp add: art_a_def mk_article_def)
  from p_fail scenario_today_new_a u scenario_story_run scenario_today_new_story_next p_next
  show ?thesis
    unfolding next_run by blast
qed

end
